theory Spec2Isabelle
  imports Main "HOL-Library.FSet" "HOL-Library.Word"
begin

section \<open>Machine integers\<close>

text \<open>
  A C++ \<^verbatim>\<open>int\<close> that holds a geometry value or a screen coordinate is a 32-bit word, read
  as two's complement by \<open>sint\<close>; \<open>+\<close> and \<open>-\<close> wrap around. Signed overflow is undefined
  in C++, and the model takes the wrap-around that the compiled code shows. A \<^verbatim>\<open>size_t\<close>
  (a length, a count, a column width) is a \<^typ>\<open>nat\<close>, with \<open>mod 2 ^ 64\<close> written out where
  the source's arithmetic can wrap; a \<^verbatim>\<open>size_t\<close> converted to \<^verbatim>\<open>int\<close> is \<open>of_nat\<close>, which
  keeps the low 32 bits.
\<close>

type_synonym int32 = "32 word"

text \<open>An \<^verbatim>\<open>int\<close> converted to \<^verbatim>\<open>size_t\<close> (64 bits), as in a comparison with a \<^verbatim>\<open>size_t\<close>.\<close>

definition to_size_t :: "int \<Rightarrow> nat" where
  "to_size_t i = nat (i mod 2 ^ 64)"

text \<open>
  C++ integer division by two truncates towards zero (used where the source centres a
  text: \<^verbatim>\<open>(width - len) / 2\<close>, \<^verbatim>\<open>info.width / 2\<close>).
\<close>

definition half :: "int \<Rightarrow> int" where
  "half a = (if a < 0 then - ((- a) div 2) else a div 2)"

definition half32 :: "int32 \<Rightarrow> int32" where
  "half32 a = word_of_int (half (sint a))"

text \<open>
  \<^verbatim>\<open>std::string::max_size()\<close>, beyond which \<^verbatim>\<open>std::string\<close> throws \<^verbatim>\<open>std::length_error\<close>:
  the value of libstdc++ on a 64-bit target. Running out of memory below this size is
  not modelled.
\<close>

definition max_size :: nat where
  "max_size = 2 ^ 62 - 1"

text \<open>
  What \<^verbatim>\<open>"%s"\<close> prints of \<^verbatim>\<open>str.c_str()\<close>: the characters before the first NUL.
\<close>

definition c_str :: "string \<Rightarrow> string" where
  "c_str s = takeWhile (\<lambda>c. c \<noteq> CHR 0x00) s"

section \<open>Geometry and the layered window stack\<close>

text \<open>
  The toolkit of \<^verbatim>\<open>tuicpp.hpp\<close> sits on ncurses. A surface (\<^verbatim>\<open>WINDOW *\<close>) is opaque to the
  toolkit: all it ever does with one is hand four integers to \<^verbatim>\<open>newwin\<close> (or two to
  \<^verbatim>\<open>wresize\<close>). A surface is therefore modelled by the rectangle that was requested for
  it.
\<close>

record ScreenInfo =
  height :: int32
  width :: int32
  y :: int32
  x :: int32

record WINDOW =
  nlines :: int32
  ncols :: int32
  begin_y :: int32
  begin_x :: int32

definition newwin :: "int32 \<Rightarrow> int32 \<Rightarrow> int32 \<Rightarrow> int32 \<Rightarrow> WINDOW" where
  "newwin h w py px = \<lparr>nlines = h, ncols = w, begin_y = py, begin_x = px\<rparr>"

definition wresize :: "WINDOW \<Rightarrow> int32 \<Rightarrow> int32 \<Rightarrow> WINDOW" where
  "wresize win h w = win\<lparr>nlines := h, ncols := w\<rparr>"

text \<open>
  The class hierarchy \<^verbatim>\<open>Window\<close>, \<^verbatim>\<open>PlainWindow\<close>, \<^verbatim>\<open>BoxedWindow\<close>, \<^verbatim>\<open>DecoratedWindow\<close> as
  record extensions. The members \<^verbatim>\<open>_main\<close>, \<^verbatim>\<open>_box\<close>, \<^verbatim>\<open>_title\<close>, \<^verbatim>\<open>_title_str\<close> lose their
  leading underscore.
\<close>

record Window =
  info :: ScreenInfo

record PlainWindow = Window +
  main :: WINDOW

record BoxedWindow = PlainWindow +
  box :: WINDOW

record DecoratedWindow = BoxedWindow +
  title :: WINDOW
  title_str :: string

definition decoration_height :: int32 where
  "decoration_height = 5"

text \<open>
  Each constructor runs its base-class constructor first and then overwrites \<^verbatim>\<open>_main\<close>.
  Drawing the borders and the title text and refreshing change no member and are left
  out.
\<close>

definition PlainWindow_new :: "int32 \<Rightarrow> int32 \<Rightarrow> int32 \<Rightarrow> int32 \<Rightarrow> PlainWindow" where
  "PlainWindow_new h w py px =
     \<lparr>info = \<lparr>height = h, width = w, y = py, x = px\<rparr>, main = newwin h w py px\<rparr>"

definition BoxedWindow_new :: "int32 \<Rightarrow> int32 \<Rightarrow> int32 \<Rightarrow> int32 \<Rightarrow> BoxedWindow" where
  "BoxedWindow_new h w py px =
     (let base = PlainWindow_new h w py px
      in \<lparr>info = info base,
          main = newwin (h - 2) (w - 2) (py + 1) (px + 1),
          box = newwin h w py px\<rparr>)"

definition DecoratedWindow_new ::
    "string \<Rightarrow> int32 \<Rightarrow> int32 \<Rightarrow> int32 \<Rightarrow> int32 \<Rightarrow> DecoratedWindow" where
  "DecoratedWindow_new t h w py px =
     (let base = BoxedWindow_new h w py px
      in \<lparr>info = info base,
          main = newwin (h - 5) (w - 2) (py + 4) (px + 1),
          box = box base,
          title = newwin 3 (w - 2) (py + 1) (px + 1),
          title_str = t\<rparr>)"

definition DecoratedWindow_of_info :: "string \<Rightarrow> ScreenInfo \<Rightarrow> DecoratedWindow" where
  "DecoratedWindow_of_info t i = DecoratedWindow_new t (height i) (width i) (y i) (x i)"

section \<open>Key codes and errors\<close>

text \<open>
  Key codes of \<^verbatim>\<open>ncurses.h\<close> (octal 0402, 0403 and 0407 there). Enter is 10, Tab is 9 and
  Escape is 27 in the source itself.
\<close>

definition KEY_DOWN :: int where
  "KEY_DOWN = 258"

definition KEY_UP :: int where
  "KEY_UP = 259"

definition KEY_BACKSPACE :: int where
  "KEY_BACKSPACE = 263"

text \<open>
  The abnormal outcomes the widgets can have. \<open>LengthError\<close> and \<open>OutOfRange\<close> are the
  exceptions \<^verbatim>\<open>std::length_error\<close> and \<^verbatim>\<open>std::out_of_range\<close> thrown by \<^verbatim>\<open>std::string\<close>;
  \<open>IndexOutOfBounds\<close> stands for an unchecked \<^verbatim>\<open>operator[]\<close> past the end of a vector,
  which is undefined behaviour in C++. The source has no \<^verbatim>\<open>throw\<close> of its own.
\<close>

datatype error = LengthError | OutOfRange | IndexOutOfBounds

section \<open>Selection widget\<close>

record Option =
  centered :: bool
  multi :: bool

text \<open>
  \<^verbatim>\<open>Selection\<close> is \<^verbatim>\<open>std::set <int>\<close>, a finite set: \<^typ>\<open>int fset\<close>. The members
  \<^verbatim>\<open>_option\<close>, \<^verbatim>\<open>_option_list\<close>, \<^verbatim>\<open>_line\<close> and \<^verbatim>\<open>_terminate\<close> lose their underscore.
\<close>

type_synonym Selection = "int fset"

record SelectionWindow = DecoratedWindow +
  option :: Option
  option_list :: "string list"
  line :: int
  terminate :: bool

text \<open>
  \<^verbatim>\<open>_handle_key\<close>, in the order of its statements. \<open>move_line\<close> is its first part: the
  arrow keys and the clamp of \<^verbatim>\<open>_line\<close>, with the option count converted to \<^verbatim>\<open>int\<close> as in
  the source. \<^verbatim>\<open>_line\<close> is clamped after every key, so the decrement and increment never
  overflow.
\<close>

definition move_line :: "int \<Rightarrow> SelectionWindow \<Rightarrow> int" where
  "move_line c w =
     (let l1 = (if c = KEY_UP then line w - 1 else line w);
          l2 = (if c = KEY_DOWN then l1 + 1 else l1);
          sz = int (length (option_list w))
      in if multi (option w) then max 0 (min l2 sz) else max 0 (min l2 (sz - 1)))"

text \<open>
  The second part: Escape, then Enter. In multi mode the early \<^verbatim>\<open>return\<close> on the OK
  position is the branch that leaves \<open>selected\<close> alone.
\<close>

definition select_line :: "SelectionWindow \<Rightarrow> Selection \<Rightarrow> SelectionWindow \<times> Selection" where
  "select_line w selected =
     (if \<not> multi (option w) then (w\<lparr>terminate := True\<rparr>, finsert (line w) selected)
      else if line w = int (length (option_list w)) then (w\<lparr>terminate := True\<rparr>, selected)
      else if line w |\<notin>| selected then (w, finsert (line w) selected)
      else (w, selected |-| {|line w|}))"

definition handle_key :: "int \<Rightarrow> SelectionWindow \<times> Selection \<Rightarrow> SelectionWindow \<times> Selection" where
  "handle_key c ws =
     (case ws of (w, selected) \<Rightarrow>
        let w1 = w\<lparr>line := move_line c w\<rparr>;
            w2 = (if c = 27 then w1\<lparr>terminate := True\<rparr> else w1)
        in if c = 10 then select_line w2 selected else (w2, selected))"

text \<open>A sequence of keys handed to the key handler one after the other.\<close>

fun handle_keys :: "int list \<Rightarrow> SelectionWindow \<times> Selection \<Rightarrow> SelectionWindow \<times> Selection" where
  "handle_keys [] ws = ws"
| "handle_keys (c # cs) ws = handle_keys cs (handle_key c ws)"

text \<open>
  Centering in the constructor, in 32-bit arithmetic (\<^verbatim>\<open>int len = str.length()\<close> keeps
  the low 32 bits). \<^verbatim>\<open>str.insert(0, pad_left, ' ')\<close> and \<^verbatim>\<open>str.append(pad_right, ' ')\<close>
  take their count as \<^verbatim>\<open>size_t\<close> and throw \<^verbatim>\<open>std::length_error\<close> when the new size would
  exceed \<^verbatim>\<open>max_size()\<close>, as it does for every negative \<^verbatim>\<open>int\<close>.
\<close>

fun pad_options :: "int32 \<Rightarrow> string list \<Rightarrow> error + string list" where
  "pad_options wd [] = Inr []"
| "pad_options wd (s # ss) =
     (let len = (of_nat (length s) :: int32);
          pad_left = half32 (wd - len);
          pad_right = wd - len - pad_left;
          n_left = to_size_t (sint pad_left);
          n_right = to_size_t (sint pad_right)
      in if length s + n_left > max_size \<or> length s + n_left + n_right > max_size
         then Inl LengthError
         else (case pad_options wd ss of
                 Inl e \<Rightarrow> Inl e
               | Inr ss' \<Rightarrow>
                   Inr ((replicate n_left CHR '' '' @ s @ replicate n_right CHR '' '') # ss')))"

definition SelectionWindow_new ::
    "string \<Rightarrow> ScreenInfo \<Rightarrow> string list \<Rightarrow> Option \<Rightarrow> error + SelectionWindow" where
  "SelectionWindow_new t i ol opt =
     (let base = DecoratedWindow_of_info t i
      in case (if centered opt then pad_options (width i - 4) ol else Inr ol) of
           Inl e \<Rightarrow> Inl e
         | Inr ol' \<Rightarrow>
             Inr \<lparr>info = info base, main = main base, box = box base,
                  title = title base, title_str = title_str base,
                  option = opt, option_list = ol', line = 0, terminate = False\<rparr>)"

text \<open>
  \<^verbatim>\<open>yield\<close>: the blocking loop. The keys \<^verbatim>\<open>getc()\<close> will deliver are a list; when the list
  runs out before \<^verbatim>\<open>_terminate\<close> is set the call is still blocked in \<^verbatim>\<open>getc()\<close> and has
  no result (\<open>None\<close>). Repainting the option rows reads \<^verbatim>\<open>_option_list[i]\<close> for
  \<open>i\<close> below the list's size only and changes no member; it is left out. The result is
  the returned flag together with the widget and the caller's set as the loop left them.
\<close>

fun SelectionWindow_yield ::
    "SelectionWindow \<Rightarrow> Selection \<Rightarrow> int list \<Rightarrow> (bool \<times> SelectionWindow \<times> Selection) option" where
  "SelectionWindow_yield w selected [] =
     (if terminate w then Some (0 < fcard selected, w, selected) else None)"
| "SelectionWindow_yield w selected (c # cs) =
     (if terminate w then Some (0 < fcard selected, w, selected)
      else (case handle_key c (w, selected) of
              (w', selected') \<Rightarrow> SelectionWindow_yield w' selected' cs))"

section \<open>Primitive calls\<close>

text \<open>
  What a widget does to its surface is recorded as the list of primitive calls it makes,
  in order. Coordinates are the \<^verbatim>\<open>int\<close> arguments of the call. \<open>MvPrintf\<close> carries the
  text after formatting; \<open>Proc\<close> records a call of an edit strategy's \<^verbatim>\<open>proc\<close> (field index
  and key). The \<^verbatim>\<open>wrefresh\<close> that \<^verbatim>\<open>mvprintf\<close> and \<^verbatim>\<open>mvadd_char\<close> append to every write is
  not recorded separately.
\<close>

datatype chtype =
  ACS_ULCORNER | ACS_URCORNER | ACS_LLCORNER | ACS_LRCORNER
  | ACS_HLINE | ACS_VLINE | ACS_TTEE | ACS_BTEE | ACS_LTEE | ACS_RTEE | ACS_PLUS

datatype attribute = A_NORMAL | A_REVERSE

datatype call =
  MvAddCh int32 int32 chtype
  | MvPrintf int32 int32 string
  | AttrSet attribute
  | Erase
  | Resize int32 int32
  | Refresh
  | CursSet int
  | Cursor int32 int32
  | ClrToEol
  | Proc nat int

section \<open>Table widget\<close>

text \<open>
  \<^verbatim>\<open>Table <T>\<close> with its members \<^verbatim>\<open>_headers\<close>, \<^verbatim>\<open>_data\<close>, \<^verbatim>\<open>_lengths\<close>, \<^verbatim>\<open>_generator\<close>, and the
  update structure \<^verbatim>\<open>From\<close>, whose fields carry the prefix \<open>from_\<close> here. Lengths are
  \<^verbatim>\<open>size_t\<close>.
\<close>

record 'a Table = PlainWindow +
  headers :: "string list"
  data :: "'a list"
  lengths :: "nat list"
  generator :: "'a \<Rightarrow> nat \<Rightarrow> string"

record 'a From =
  from_headers :: "string list"
  from_data :: "'a list"
  from_generator :: "'a \<Rightarrow> nat \<Rightarrow> string"
  from_lengths :: "nat list"
  auto_resize :: bool

text \<open>
  \<^verbatim>\<open>_get_lengths\<close>: the inner loop over the rows, started at the header's length, and the
  outer loop over the columns writing \<^verbatim>\<open>_lengths[i]\<close>.
\<close>

fun longest :: "('a \<Rightarrow> nat \<Rightarrow> string) \<Rightarrow> nat \<Rightarrow> 'a list \<Rightarrow> nat \<Rightarrow> nat" where
  "longest g i [] len = len"
| "longest g i (d # ds) len =
     (let l = length (g d i) in longest g i ds (if l > len then l else len))"

definition get_lengths :: "'a Table \<Rightarrow> 'a Table" where
  "get_lengths t =
     t\<lparr>lengths :=
         fold (\<lambda>i ls. ls[i := longest (generator t) i (data t) (length (headers t ! i))])
           [0..<length (headers t)]
           (replicate (length (headers t)) 0)\<rparr>"

text \<open>\<^verbatim>\<open>PlainWindow::resize\<close> on the table's surface.\<close>

definition resize :: "'a Table \<Rightarrow> int32 \<Rightarrow> int32 \<Rightarrow> 'a Table \<times> call list" where
  "resize t h w = (t\<lparr>main := wresize (main t) h w\<rparr>, [Resize h w])"

text \<open>
  The number of rounds of \<^verbatim>\<open>for (int j = 0; j < _lengths[i] + 2; j++)\<close>. The bound is a
  \<^verbatim>\<open>size_t\<close> sum and wraps at \<open>2 ^ 64\<close>; \<open>j\<close> is converted to \<^verbatim>\<open>size_t\<close> for the comparison,
  so once it has wrapped from \<open>2 ^ 31 - 1\<close> to \<open>- 2 ^ 31\<close> it compares as
  \<open>2 ^ 64 - 2 ^ 31\<close> and upwards.
\<close>

definition hline_count :: "nat \<Rightarrow> nat" where
  "hline_count l =
     (let b = (l + 2) mod 2 ^ 64
      in if b \<le> 2 ^ 31 then b
         else if b \<le> 2 ^ 64 - 2 ^ 31 then 2 ^ 31
         else b - (2 ^ 64 - 2 ^ 32))"

text \<open>
  \<^verbatim>\<open>_write_table\<close>. The three bars share one shape and differ in their glyphs. Every
  loop runs over the column indices below \<^verbatim>\<open>_headers.size()\<close> and reads \<^verbatim>\<open>_lengths[i]\<close>
  unchecked. \<^verbatim>\<open>x += _lengths[i] + 3\<close> adds a \<^verbatim>\<open>size_t\<close> into an \<^verbatim>\<open>int\<close>.
\<close>

fun bar_loop ::
    "chtype \<Rightarrow> chtype \<Rightarrow> nat list \<Rightarrow> nat \<Rightarrow> int32 \<Rightarrow> int32 \<Rightarrow> nat list \<Rightarrow> call list" where
  "bar_loop mid corner ls n ln px [] = []"
| "bar_loop mid corner ls n ln px (i # js) =
     (let px' = px + of_nat (ls ! i) + 3
      in map (\<lambda>j. MvAddCh ln (px + of_nat j + 1) ACS_HLINE) [0..<hline_count (ls ! i)]
         @ [MvAddCh ln px' (if i \<noteq> n - 1 then mid else corner)]
         @ bar_loop mid corner ls n ln px' js)"

definition bar :: "chtype \<Rightarrow> chtype \<Rightarrow> chtype \<Rightarrow> 'a Table \<Rightarrow> int32 \<Rightarrow> call list" where
  "bar left mid corner t ln =
     MvAddCh ln 0 left
       # bar_loop mid corner (lengths t) (length (headers t)) ln 0 [0..<length (headers t)]"

fun header_loop :: "string list \<Rightarrow> nat list \<Rightarrow> int32 \<Rightarrow> int32 \<Rightarrow> nat list \<Rightarrow> call list" where
  "header_loop hs ls ln px [] = []"
| "header_loop hs ls ln px (i # js) =
     (let px' = px + of_nat (ls ! i) + 3
      in [MvPrintf ln px ('' '' @ c_str (hs ! i) @ '' ''), MvAddCh ln (px' - 1) ACS_VLINE]
         @ header_loop hs ls ln px' js)"

text \<open>
  A data cell: \<^verbatim>\<open>str.substr(0, _lengths[i])\<close>, then, when shorter than \<^verbatim>\<open>_lengths[i]\<close>,
  \<^verbatim>\<open>str.append(std::string(_lengths[i] - str.length(), ' '))\<close>. Building or appending the
  padding throws \<^verbatim>\<open>std::length_error\<close> when the padded size \<^verbatim>\<open>_lengths[i]\<close> is beyond
  \<^verbatim>\<open>max_size()\<close>.
\<close>

definition cell :: "string \<Rightarrow> nat \<Rightarrow> error + string" where
  "cell s l =
     (let str = take l s
      in if length str < l then
           (if l > max_size then Inl LengthError
            else Inr (str @ replicate (l - length str) CHR '' ''))
         else Inr str)"

fun row_loop ::
    "(nat \<Rightarrow> string) \<Rightarrow> nat list \<Rightarrow> bool \<Rightarrow> int32 \<Rightarrow> int32 \<Rightarrow> nat list \<Rightarrow> error + call list" where
  "row_loop gd ls hl ln px [] = Inr []"
| "row_loop gd ls hl ln px (i # js) =
     (case cell (gd i) (ls ! i) of
        Inl e \<Rightarrow> Inl e
      | Inr str \<Rightarrow>
          (let px' = px + of_nat (ls ! i) + 3
           in case row_loop gd ls hl ln px' js of
                Inl e \<Rightarrow> Inl e
              | Inr cs \<Rightarrow>
                  Inr ((if hl then [AttrSet A_REVERSE] else [])
                       @ [MvPrintf ln px ('' '' @ c_str str @ '' '')]
                       @ (if hl then [AttrSet A_NORMAL] else [])
                       @ [MvAddCh ln (px' - 1) ACS_VLINE]
                       @ cs)))"

text \<open>
  The loop over the rows. The row number \<open>n\<close> is a \<^verbatim>\<open>size_t\<close> compared with the
  \<^verbatim>\<open>int\<close> \<open>highlight\<close>, which is converted to \<^verbatim>\<open>size_t\<close>: a negative \<open>highlight\<close> (the
  default is -1) matches no row of a real table.
\<close>

fun data_loop :: "'a Table \<Rightarrow> int32 \<Rightarrow> nat \<Rightarrow> int32 \<Rightarrow> 'a list \<Rightarrow> error + call list" where
  "data_loop t highlight n ln [] = Inr []"
| "data_loop t highlight n ln (d # ds) =
     (case row_loop (generator t d) (lengths t) (n = to_size_t (sint highlight)) ln 1
             [0..<length (headers t)] of
        Inl e \<Rightarrow> Inl e
      | Inr row \<Rightarrow>
          (case data_loop t highlight (Suc n) (ln + 1) ds of
             Inl e \<Rightarrow> Inl e
           | Inr cs \<Rightarrow> Inr (row @ [MvAddCh ln 0 ACS_VLINE] @ cs)))"

text \<open>
  With fewer lengths than headers the first loop already reads \<^verbatim>\<open>_lengths[i]\<close> past the
  end; that is the only unchecked read that can go out of range. The bars and the
  header row come before the data rows and cannot fail otherwise.
\<close>

definition write_table :: "'a Table \<Rightarrow> int32 \<Rightarrow> error + call list" where
  "write_table t highlight =
     (if length (lengths t) < length (headers t) then Inl IndexOutOfBounds
      else (case data_loop t highlight 0 3 (data t) of
              Inl e \<Rightarrow> Inl e
            | Inr rows \<Rightarrow>
                Inr (bar ACS_ULCORNER ACS_TTEE ACS_URCORNER t 0
                     @ header_loop (headers t) (lengths t) 1 1 [0..<length (headers t)]
                     @ [MvAddCh 1 0 ACS_VLINE]
                     @ bar ACS_LTEE ACS_PLUS ACS_RTEE t 2
                     @ rows
                     @ bar ACS_LLCORNER ACS_BTEE ACS_LRCORNER t
                         (3 + of_nat (length (data t))))))"

text \<open>
  The width the constructor computes when asked to resize: \<^verbatim>\<open>new_width += l + 3\<close> adds a
  \<^verbatim>\<open>size_t\<close> into an \<^verbatim>\<open>int\<close>.
\<close>

definition new_width :: "nat list \<Rightarrow> int32" where
  "new_width ls = fold (\<lambda>l nw. nw + of_nat l + 3) ls 1"

text \<open>
  The constructor: the member initialisers (\<open>Table_init\<close>), then the body.
\<close>

definition Table_init :: "'a From \<Rightarrow> int32 \<Rightarrow> int32 \<Rightarrow> int32 \<Rightarrow> int32 \<Rightarrow> 'a Table" where
  "Table_init f h w py px =
     (let base = PlainWindow_new h w py px
      in \<lparr>info = info base, main = main base,
          headers = from_headers f, data = from_data f,
          lengths = from_lengths f, generator = from_generator f\<rparr>)"

definition Table_new ::
    "'a From \<Rightarrow> int32 \<Rightarrow> int32 \<Rightarrow> int32 \<Rightarrow> int32 \<Rightarrow> error + 'a Table \<times> call list" where
  "Table_new f h w py px =
     (let t0 = Table_init f h w py px;
          t1 = (if lengths t0 = [] then get_lengths t0 else t0);
          r = (if auto_resize f
               then resize t1 (of_nat (length (data t1)) + 4) (new_width (lengths t1))
               else (t1, []))
      in case write_table (fst r) (- 1) of
           Inl e \<Rightarrow> Inl e
         | Inr ds \<Rightarrow> Inr (fst r, snd r @ ds @ [Refresh]))"

definition set_data :: "'a Table \<Rightarrow> 'a list \<Rightarrow> bool \<Rightarrow> error + 'a Table \<times> call list" where
  "set_data t d ar =
     (let t1 = t\<lparr>data := d\<rparr>;
          r = (if ar
               then (let t2 = get_lengths (t1\<lparr>lengths := []\<rparr>)
                     in resize t2 (of_nat (length (data t2)) + 4) 1)
               else (t1, []))
      in case write_table (fst r) (- 1) of
           Inl e \<Rightarrow> Inl e
         | Inr ds \<Rightarrow> Inr (fst r, [Erase] @ snd r @ ds @ [Refresh]))"

definition set_lengths :: "'a Table \<Rightarrow> nat list \<Rightarrow> error + 'a Table \<times> call list" where
  "set_lengths t ls =
     (let t1 = t\<lparr>lengths := ls\<rparr>
      in case write_table t1 (- 1) of
           Inl e \<Rightarrow> Inl e
         | Inr ds \<Rightarrow> Inr (t1, [Erase] @ ds @ [Refresh]))"

definition set_generator ::
    "'a Table \<Rightarrow> ('a \<Rightarrow> nat \<Rightarrow> string) \<Rightarrow> error + 'a Table \<times> call list" where
  "set_generator t g =
     (let t1 = t\<lparr>generator := g\<rparr>
      in case write_table t1 (- 1) of
           Inl e \<Rightarrow> Inl e
         | Inr ds \<Rightarrow> Inr (t1, [Erase] @ ds @ [Refresh]))"

definition highlight_row :: "'a Table \<Rightarrow> int32 \<Rightarrow> error + 'a Table \<times> call list" where
  "highlight_row t row =
     (case write_table t row of
        Inl e \<Rightarrow> Inl e
      | Inr ds \<Rightarrow> Inr (t, [Erase] @ ds @ [Refresh]))"

section \<open>Edit strategies\<close>

text \<open>
  A \<^verbatim>\<open>Tyielder <std::string>\<close> holds a pointer to a string owned by the caller; two
  yielders may point to the same string. Pointers are addresses into a store of strings.
  \<open>base_yielder\<close> also stands for \<^verbatim>\<open>Tyielder <T>\<close> at any other type, which overrides
  nothing.
\<close>

type_synonym store = "nat \<Rightarrow> string"

datatype yielder = base_yielder | Tyielder_string nat

datatype Ret = RET_NOP | RET_PLUS | RET_DEL

text \<open>\<^verbatim>\<open>std::isprint\<close> in the C locale.\<close>

definition isprint :: "int \<Rightarrow> bool" where
  "isprint ch = (32 \<le> ch \<and> ch \<le> 126)"

definition proc :: "yielder \<Rightarrow> int \<Rightarrow> store \<Rightarrow> Ret \<times> store" where
  "proc yl ch st =
     (case yl of
        base_yielder \<Rightarrow> (RET_NOP, st)
      | Tyielder_string p \<Rightarrow>
          if ch = KEY_BACKSPACE then
            (if st p \<noteq> [] then (RET_DEL, st(p := butlast (st p))) else (RET_NOP, st))
          else if isprint ch then (RET_PLUS, st(p := st p @ [char_of ch]))
          else (RET_NOP, st))"

definition content :: "yielder \<Rightarrow> store \<Rightarrow> string" where
  "content yl st = (case yl of base_yielder \<Rightarrow> [] | Tyielder_string p \<Rightarrow> st p)"

section \<open>Field editor widget\<close>

text \<open>
  The member \<^verbatim>\<open>_fields\<close> is \<open>fields'\<close> (the record package owns the name without the
  prime); \<^verbatim>\<open>_quit\<close> and \<^verbatim>\<open>_escape\<close> lose their underscore.
\<close>

record FieldEditor = DecoratedWindow +
  fields' :: "string list"
  quit :: bool
  escape :: bool

text \<open>\<^verbatim>\<open>std::string::resize(n, c)\<close>.\<close>

definition string_resize :: "string \<Rightarrow> nat \<Rightarrow> char \<Rightarrow> string" where
  "string_resize s n c = (if n \<le> length s then take n s else s @ replicate (n - length s) c)"

definition FieldEditor_new :: "string \<Rightarrow> string list \<Rightarrow> ScreenInfo \<Rightarrow> FieldEditor" where
  "FieldEditor_new t fnames i =
     (let base = DecoratedWindow_of_info t i;
          max_len = fold (\<lambda>f m. max m (length f)) fnames 0
      in \<lparr>info = info base, main = main base, box = box base,
          title = title base, title_str = title_str base,
          fields' = map (\<lambda>f. string_resize f (max_len + 2) CHR '' '') fnames,
          quit = False, escape = False\<rparr>)"

text \<open>
  \<^verbatim>\<open>_check_movement_input\<close>. The focus \<^verbatim>\<open>field\<close> is a local \<^verbatim>\<open>int\<close> of \<^verbatim>\<open>yield\<close> that starts
  at 0 and is decremented only when positive; it is compared with the \<^verbatim>\<open>size_t\<close>
  \<^verbatim>\<open>_fields.size()\<close> and is a \<^typ>\<open>nat\<close> here. The result is the returned flag, the
  editor and the focus.
\<close>

definition check_movement_input :: "int \<Rightarrow> FieldEditor \<times> nat \<Rightarrow> bool \<times> FieldEditor \<times> nat" where
  "check_movement_input c s =
     (case s of (fe, field) \<Rightarrow>
        if c = KEY_UP then (True, fe, if field > 0 then field - 1 else field)
        else if c = KEY_DOWN then (True, fe, if field < length (fields' fe) then field + 1 else field)
        else if c = 10 then (True, if field = length (fields' fe) then fe\<lparr>quit := True\<rparr> else fe, field)
        else if c = 9 then (True, fe, if field = length (fields' fe) then 0 else field + 1)
        else if c = 27 then (True, fe\<lparr>escape := True, quit := True\<rparr>, field)
        else (False, fe, field))"

definition print_ok :: "FieldEditor \<Rightarrow> bool \<Rightarrow> call list" where
  "print_ok fe highlight =
     (if highlight then [AttrSet A_REVERSE] else [])
     @ [MvPrintf (height (info fe) - 6) (half32 (width (info fe)) - 4) ''[ OK ]'']
     @ (if highlight then [AttrSet A_NORMAL] else [])"

text \<open>
  \<^verbatim>\<open>_update_field\<close>. \<^verbatim>\<open>yielders[field]\<close> and \<^verbatim>\<open>_fields[field]\<close> are unchecked reads;
  \<^verbatim>\<open>info.width\<close> is converted to \<^verbatim>\<open>size_t\<close> for the comparison; \<^verbatim>\<open>substr(offset)\<close> throws
  \<^verbatim>\<open>std::out_of_range\<close> when the offset is beyond the content.
\<close>

definition update_field :: "FieldEditor \<Rightarrow> nat \<Rightarrow> yielder list \<Rightarrow> store \<Rightarrow> error + call list" where
  "update_field fe field ys st =
     (if field \<ge> length ys \<or> field \<ge> length (fields' fe) then Inl IndexOutOfBounds
      else
        let c = content (ys ! field) st;
            l = length (fields' fe ! field) + 1 + length c;
            wd = to_size_t (sint (width (info fe)));
            paint = (\<lambda>sub. [Cursor (of_nat field) 0, ClrToEol,
                             MvPrintf (of_nat field) 0
                               (c_str (fields' fe ! field) @ ''  '' @ c_str sub)])
        in if l + 5 > wd then
             (let offset = (l + 4) - wd
              in if offset > length c then Inl OutOfRange else Inr (paint (drop offset c)))
           else Inr (paint c))"

fun update_fields :: "FieldEditor \<Rightarrow> yielder list \<Rightarrow> store \<Rightarrow> nat list \<Rightarrow> error + call list" where
  "update_fields fe ys st [] = Inr []"
| "update_fields fe ys st (i # js) =
     (case update_field fe i ys st of
        Inl e \<Rightarrow> Inl e
      | Inr cs \<Rightarrow>
          (case update_fields fe ys st js of
             Inl e \<Rightarrow> Inl e
           | Inr cs' \<Rightarrow> Inr (cs @ cs')))"

text \<open>
  The body of the loop of \<^verbatim>\<open>yield\<close> for one key \<open>c\<close>. The state of the loop is the
  editor, the focus and the store the yielders point into. The first component of the
  result says whether the loop was left by \<^verbatim>\<open>break\<close>.
\<close>

definition yield_body ::
    "yielder list \<Rightarrow> int \<Rightarrow> FieldEditor \<times> nat \<times> store
       \<Rightarrow> error + bool \<times> (FieldEditor \<times> nat \<times> store) \<times> call list" where
  "yield_body ys c s =
     (case s of (fe, field, st) \<Rightarrow>
        (case check_movement_input c (fe, field) of (moved, fe1, field1) \<Rightarrow>
           if quit fe1 then Inr (True, (fe1, field1, st), [])
           else if field1 \<ge> length (fields' fe1) then
             Inr (False, (fe1, field1, st), CursSet 0 # print_ok fe1 True)
           else if field1 \<ge> length ys then Inl IndexOutOfBounds
           else
             let cs = CursSet 1 # print_ok fe1 False
                        @ [Cursor (of_nat field1)
                             (of_nat (length (fields' fe1 ! field1) + 2
                                      + length (content (ys ! field1) st)))]
             in if moved then Inr (False, (fe1, field1, st), cs)
                else (case proc (ys ! field1) c st of (ret, st') \<Rightarrow>
                        if ret \<noteq> RET_NOP then
                          (case update_field fe1 field1 ys st' of
                             Inl e \<Rightarrow> Inl e
                           | Inr cs' \<Rightarrow>
                               Inr (False, (fe1, field1, st'), cs @ Proc field1 c # cs'))
                        else Inr (False, (fe1, field1, st'), cs @ [Proc field1 c]))))"

text \<open>
  The loop \<^verbatim>\<open>while ((c = getc()))\<close> over the keys \<^verbatim>\<open>getc()\<close> will deliver: a key 0 ends it,
  and when the keys run out the call is still blocked in \<^verbatim>\<open>getc()\<close> (\<open>None\<close>).
\<close>

fun yield_loop ::
    "yielder list \<Rightarrow> FieldEditor \<times> nat \<times> store \<Rightarrow> int list
       \<Rightarrow> (error + (FieldEditor \<times> nat \<times> store) \<times> call list) option" where
  "yield_loop ys s [] = None"
| "yield_loop ys s (c # cs) =
     (if c = 0 then Some (Inr (s, []))
      else (case yield_body ys c s of
              Inl e \<Rightarrow> Some (Inl e)
            | Inr (brk, s', out) \<Rightarrow>
                if brk then Some (Inr (s', out))
                else (case yield_loop ys s' cs of
                        None \<Rightarrow> None
                      | Some (Inl e) \<Rightarrow> Some (Inl e)
                      | Some (Inr (s'', out')) \<Rightarrow> Some (Inr (s'', out @ out')))))"

text \<open>
  \<^verbatim>\<open>yield\<close>: every field is painted once, the cursor is put behind field 0 (an unchecked
  read of \<^verbatim>\<open>_fields[0]\<close> and \<^verbatim>\<open>yielders[0]\<close>), the loop runs, and the result is
  \<^verbatim>\<open>!_escape\<close>. It is returned with the editor, the store and the calls made.
\<close>

definition FieldEditor_yield ::
    "FieldEditor \<Rightarrow> yielder list \<Rightarrow> store \<Rightarrow> int list
       \<Rightarrow> (error + bool \<times> FieldEditor \<times> store \<times> call list) option" where
  "FieldEditor_yield fe ys st keys =
     (case update_fields fe ys st [0..<length (fields' fe)] of
        Inl e \<Rightarrow> Some (Inl e)
      | Inr cs0 \<Rightarrow>
          if fields' fe = [] \<or> ys = [] then Some (Inl IndexOutOfBounds)
          else
            (case yield_loop ys (fe, 0, st) keys of
               None \<Rightarrow> None
             | Some (Inl e) \<Rightarrow> Some (Inl e)
             | Some (Inr ((fe', field', st'), out)) \<Rightarrow>
                 Some (Inr (\<not> escape fe', fe', st',
                   cs0 @ [Cursor 0 (of_nat (length (fields' fe ! 0) + 2
                                            + length (content (ys ! 0) st))),
                          CursSet 1]
                       @ out @ [CursSet 0]))))"

section \<open>Notions used to state the properties\<close>

text \<open>The largest highlight index the clamp of \<open>move_line\<close> lets through.\<close>

definition line_bound :: "SelectionWindow \<Rightarrow> int" where
  "line_bound w =
     (if multi (option w) then int (length (option_list w))
      else max 0 (int (length (option_list w)) - 1))"

text \<open>
  A run of the field editor's loop that is still going on: every key of the list has been
  processed by \<open>yield_body\<close> without a \<^verbatim>\<open>break\<close>, an error or a key 0. The result is the
  state of the loop and the calls made so far.
\<close>

fun still_running ::
    "yielder list \<Rightarrow> FieldEditor \<times> nat \<times> store \<Rightarrow> int list
       \<Rightarrow> ((FieldEditor \<times> nat \<times> store) \<times> call list) option" where
  "still_running ys s [] = Some (s, [])"
| "still_running ys s (c # cs) =
     (if c = 0 then None
      else (case yield_body ys c s of
              Inl e \<Rightarrow> None
            | Inr (brk, s', out) \<Rightarrow>
                if brk then None
                else (case still_running ys s' cs of
                        None \<Rightarrow> None
                      | Some (s'', out') \<Rightarrow> Some (s'', out @ out'))))"

text \<open>The calls of an earlier part of the run put in front of a result of \<open>yield_loop\<close>.\<close>

definition after ::
    "call list \<Rightarrow> (error + (FieldEditor \<times> nat \<times> store) \<times> call list) option
       \<Rightarrow> (error + (FieldEditor \<times> nat \<times> store) \<times> call list) option" where
  "after out r =
     (case r of
        None \<Rightarrow> None
      | Some (Inl e) \<Rightarrow> Some (Inl e)
      | Some (Inr (s, out')) \<Rightarrow> Some (Inr (s, out @ out')))"

section \<open>Properties of the window stack\<close>

lemma sint_bounds: "- (2 ^ 31) \<le> sint a" "sint a < 2 ^ 31" for a :: int32
  using sint_ge [of a] sint_lt [of a] by simp_all

lemma sint_sub_const:
  fixes a c :: int32
  assumes "- (2 ^ 31) \<le> sint a - sint c" "sint a - sint c < 2 ^ 31"
  shows "sint (a - c) = sint a - sint c"
  using assms by (simp add: sint_word_ariths signed_take_bit_int_eq_self)

lemma sint_add_const:
  fixes a c :: int32
  assumes "- (2 ^ 31) \<le> sint a + sint c" "sint a + sint c < 2 ^ 31"
  shows "sint (a + c) = sint a + sint c"
  using assms by (simp add: sint_word_ariths signed_take_bit_int_eq_self)

text \<open>
  C1. For every geometry and title, the decorated window's content surface is requested
  with size (height - 5, width - 2) at origin (y + 4, x + 1) and its title surface with
  size (3, width - 2) at origin (y + 1, x + 1), in the 32-bit arithmetic of \<^verbatim>\<open>int\<close>; the
  rows taken away from the content are exactly \<open>decoration_height = 5\<close>; and the
  derivation depends on the geometry alone: any other title, and the constructor taking
  a \<open>ScreenInfo\<close>, give the same surfaces. Wherever the subtraction or addition does not
  leave the range of \<^verbatim>\<open>int\<close>, the values are the integers height - 5, width - 2, y + 4
  and x + 1.
\<close>

theorem decorated_content_geometry:
  "main (DecoratedWindow_new t h w py px)
     = \<lparr>nlines = h - 5, ncols = w - 2, begin_y = py + 4, begin_x = px + 1\<rparr>
   \<and> title (DecoratedWindow_new t h w py px)
     = \<lparr>nlines = 3, ncols = w - 2, begin_y = py + 1, begin_x = px + 1\<rparr>
   \<and> h - nlines (main (DecoratedWindow_new t h w py px)) = decoration_height
   \<and> decoration_height = 5
   \<and> main (DecoratedWindow_new t' h w py px) = main (DecoratedWindow_new t h w py px)
   \<and> title (DecoratedWindow_new t' h w py px) = title (DecoratedWindow_new t h w py px)
   \<and> main (DecoratedWindow_of_info t \<lparr>height = h, width = w, y = py, x = px\<rparr>)
     = main (DecoratedWindow_new t h w py px)
   \<and> (- (2 ^ 31) + 5 \<le> sint h
        \<longrightarrow> sint (nlines (main (DecoratedWindow_new t h w py px))) = sint h - 5)
   \<and> (- (2 ^ 31) + 2 \<le> sint w
        \<longrightarrow> sint (ncols (main (DecoratedWindow_new t h w py px))) = sint w - 2)
   \<and> (sint py < 2 ^ 31 - 4
        \<longrightarrow> sint (begin_y (main (DecoratedWindow_new t h w py px))) = sint py + 4)
   \<and> (sint px < 2 ^ 31 - 1
        \<longrightarrow> sint (begin_x (main (DecoratedWindow_new t h w py px))) = sint px + 1)"
proof -
  have m: "main (DecoratedWindow_new t h w py px)
     = \<lparr>nlines = h - 5, ncols = w - 2, begin_y = py + 4, begin_x = px + 1\<rparr>" for t
    by (simp add: DecoratedWindow_new_def newwin_def Let_def)
  have tt: "title (DecoratedWindow_new t h w py px)
     = \<lparr>nlines = 3, ncols = w - 2, begin_y = py + 1, begin_x = px + 1\<rparr>" for t
    by (simp add: DecoratedWindow_new_def newwin_def Let_def)
  have i: "main (DecoratedWindow_of_info t \<lparr>height = h, width = w, y = py, x = px\<rparr>)
     = main (DecoratedWindow_new t h w py px)"
    by (simp add: DecoratedWindow_of_info_def)
  note r = sint_bounds
  have 1: "sint (h - 5) = sint h - 5" if "- (2 ^ 31) + 5 \<le> sint h"
    using sint_sub_const [of h 5] that r [of h] by simp
  have 2: "sint (w - 2) = sint w - 2" if "- (2 ^ 31) + 2 \<le> sint w"
    using sint_sub_const [of w 2] that r [of w] by simp
  have 3: "sint (py + 4) = sint py + 4" if "sint py < 2 ^ 31 - 4"
    using sint_add_const [of py 4] that r [of py] by simp
  have 4: "sint (px + 1) = sint px + 1" if "sint px < 2 ^ 31 - 1"
    using sint_add_const [of px 1] that r [of px] by simp
  show ?thesis
    using 1 2 3 4 by (simp add: m tt i decoration_height_def)
qed

theorem decorated_content_geometry_witness:
  "main (DecoratedWindow_new ''Menu'' 20 40 2 3)
     = \<lparr>nlines = 15, ncols = 38, begin_y = 6, begin_x = 4\<rparr>
   \<and> title (DecoratedWindow_new ''Menu'' 20 40 2 3)
     = \<lparr>nlines = 3, ncols = 38, begin_y = 3, begin_x = 4\<rparr>
   \<and> sint (nlines (main (DecoratedWindow_new ''Menu'' 20 40 2 3))) = 15
   \<and> sint (ncols (main (DecoratedWindow_new ''Menu'' 20 40 2 3))) = 38
   \<and> sint (begin_y (main (DecoratedWindow_new ''Menu'' 20 40 2 3))) = 6
   \<and> sint (begin_x (main (DecoratedWindow_new ''Menu'' 20 40 2 3))) = 4"
  using decorated_content_geometry [of "''Menu''" 20 40 2 3] by simp

section \<open>Properties of the selection widget\<close>

lemma select_line_frame:
  "option (fst (select_line w s)) = option w"
  "option_list (fst (select_line w s)) = option_list w"
  "line (fst (select_line w s)) = line w"
  by (simp_all add: select_line_def)

lemma handle_key_frame:
  "option (fst (handle_key c (w, s))) = option w"
  "option_list (fst (handle_key c (w, s))) = option_list w"
  "line (fst (handle_key c (w, s))) = move_line c w"
  by (simp_all add: handle_key_def Let_def select_line_frame)

lemma move_line_range: "0 \<le> move_line c w \<and> move_line c w \<le> line_bound w"
  by (auto simp: move_line_def line_bound_def Let_def min_def max_def)

text \<open>The key handler keeps the mode and the options, and the clamp keeps the range.\<close>

lemma handle_keys_inv:
  "option (fst (handle_keys ks (w, s))) = option w
   \<and> option_list (fst (handle_keys ks (w, s))) = option_list w
   \<and> (0 \<le> line w \<and> line w \<le> line_bound w \<longrightarrow>
        0 \<le> line (fst (handle_keys ks (w, s)))
        \<and> line (fst (handle_keys ks (w, s))) \<le> line_bound w)"
proof (induction ks arbitrary: w s)
  case Nil
  then show ?case by simp
next
  case (Cons c ks)
  obtain w1 s1 where st: "handle_key c (w, s) = (w1, s1)"
    by (cases "handle_key c (w, s)")
  have o: "option w1 = option w" "option_list w1 = option_list w" "line w1 = move_line c w"
    using handle_key_frame [of c w s] st by simp_all
  then have b: "line_bound w1 = line_bound w"
    by (simp add: line_bound_def)
  have "0 \<le> line w1 \<and> line w1 \<le> line_bound w1"
    using move_line_range [of c w] o b by simp
  with Cons.IH [of w1 s1] show ?case
    using st o b by simp
qed

lemma pad_options_length: "pad_options wd ol = Inr ol' \<Longrightarrow> length ol' = length ol"
  by (induction ol arbitrary: ol') (auto simp: Let_def split: if_splits sum.splits)

lemma SelectionWindow_new_fields:
  assumes "SelectionWindow_new t i ol opt = Inr w"
  shows "line w = 0" "option w = opt" "length (option_list w) = length ol" "\<not> terminate w"
  using assms
  by (auto simp: SelectionWindow_new_def Let_def pad_options_length split: sum.splits if_splits)

text \<open>
  C2, as amended. For a selection widget constructed over an option list of size N, after
  any sequence of keys handed to the key handler the highlight index is at least 0; it
  is at most N in multi mode; in single mode it is at most N - 1 when the list is not
  empty, and it is 0 when the list is empty (the range [0, N - 1] is then empty and the
  lower bound of the clamp wins).
\<close>

theorem highlight_in_range:
  "SelectionWindow_new t i ol opt = Inr w \<Longrightarrow>
     0 \<le> line (fst (handle_keys ks (w, selected)))
     \<and> (multi opt \<longrightarrow> line (fst (handle_keys ks (w, selected))) \<le> int (length ol))
     \<and> (\<not> multi opt \<and> ol \<noteq> [] \<longrightarrow>
          line (fst (handle_keys ks (w, selected))) \<le> int (length ol) - 1)
     \<and> (\<not> multi opt \<and> ol = [] \<longrightarrow> line (fst (handle_keys ks (w, selected))) = 0)"
proof -
  assume new: "SelectionWindow_new t i ol opt = Inr w"
  note f = SelectionWindow_new_fields [OF new]
  have b: "line_bound w = (if multi opt then int (length ol) else max 0 (int (length ol) - 1))"
    using f by (simp add: line_bound_def)
  have "0 \<le> line w \<and> line w \<le> line_bound w"
    using f b by simp
  with handle_keys_inv [of ks w selected]
  have "0 \<le> line (fst (handle_keys ks (w, selected)))
      \<and> line (fst (handle_keys ks (w, selected))) \<le> line_bound w"
    by simp
  then show ?thesis
    unfolding b by (cases ol) auto
qed

theorem highlight_in_range_witness:
  "SelectionWindow_new ''Pick'' \<lparr>height = 10, width = 20, y = 0, x = 0\<rparr> [''A'', ''B'', ''C'']
       \<lparr>centered = False, multi = False\<rparr>
     = Inr \<lparr>info = \<lparr>height = 10, width = 20, y = 0, x = 0\<rparr>,
            main = \<lparr>nlines = 5, ncols = 18, begin_y = 4, begin_x = 1\<rparr>,
            box = \<lparr>nlines = 10, ncols = 20, begin_y = 0, begin_x = 0\<rparr>,
            title = \<lparr>nlines = 3, ncols = 18, begin_y = 1, begin_x = 1\<rparr>,
            title_str = ''Pick'', option = \<lparr>centered = False, multi = False\<rparr>,
            option_list = [''A'', ''B'', ''C''], line = 0, terminate = False\<rparr>
   \<and> line (fst (handle_keys [KEY_DOWN, KEY_DOWN, KEY_DOWN, KEY_DOWN]
         (\<lparr>info = \<lparr>height = 10, width = 20, y = 0, x = 0\<rparr>,
            main = \<lparr>nlines = 5, ncols = 18, begin_y = 4, begin_x = 1\<rparr>,
            box = \<lparr>nlines = 10, ncols = 20, begin_y = 0, begin_x = 0\<rparr>,
            title = \<lparr>nlines = 3, ncols = 18, begin_y = 1, begin_x = 1\<rparr>,
            title_str = ''Pick'', option = \<lparr>centered = False, multi = False\<rparr>,
            option_list = [''A'', ''B'', ''C''], line = 0, terminate = False\<rparr>, {||}))) \<le> 2"
proof -
  have new: "SelectionWindow_new ''Pick'' \<lparr>height = 10, width = 20, y = 0, x = 0\<rparr>
       [''A'', ''B'', ''C''] \<lparr>centered = False, multi = False\<rparr>
     = Inr \<lparr>info = \<lparr>height = 10, width = 20, y = 0, x = 0\<rparr>,
            main = \<lparr>nlines = 5, ncols = 18, begin_y = 4, begin_x = 1\<rparr>,
            box = \<lparr>nlines = 10, ncols = 20, begin_y = 0, begin_x = 0\<rparr>,
            title = \<lparr>nlines = 3, ncols = 18, begin_y = 1, begin_x = 1\<rparr>,
            title_str = ''Pick'', option = \<lparr>centered = False, multi = False\<rparr>,
            option_list = [''A'', ''B'', ''C''], line = 0, terminate = False\<rparr>"
    by (simp add: SelectionWindow_new_def DecoratedWindow_of_info_def DecoratedWindow_new_def
        BoxedWindow_new_def PlainWindow_new_def newwin_def Let_def)
  from highlight_in_range [OF new, of "[KEY_DOWN, KEY_DOWN, KEY_DOWN, KEY_DOWN]" "{||}"] new
  show ?thesis by simp
qed

text \<open>
  C2 as stated fails for an empty option list in single mode: the widget is constructed
  with the highlight at 0, Down leaves it at 0, and 0 is not within [0, N - 1] = [0, -1].
  Enter then inserts the index 0 although there is no option 0.
\<close>

theorem highlight_range_counterexample:
  "SelectionWindow_new ''Pick'' \<lparr>height = 10, width = 20, y = 0, x = 0\<rparr> []
       \<lparr>centered = False, multi = False\<rparr>
     = Inr \<lparr>info = \<lparr>height = 10, width = 20, y = 0, x = 0\<rparr>,
            main = \<lparr>nlines = 5, ncols = 18, begin_y = 4, begin_x = 1\<rparr>,
            box = \<lparr>nlines = 10, ncols = 20, begin_y = 0, begin_x = 0\<rparr>,
            title = \<lparr>nlines = 3, ncols = 18, begin_y = 1, begin_x = 1\<rparr>,
            title_str = ''Pick'', option = \<lparr>centered = False, multi = False\<rparr>,
            option_list = [], line = 0, terminate = False\<rparr>
   \<and> \<not> (line (fst (handle_keys [KEY_DOWN]
           (\<lparr>info = \<lparr>height = 10, width = 20, y = 0, x = 0\<rparr>,
              main = \<lparr>nlines = 5, ncols = 18, begin_y = 4, begin_x = 1\<rparr>,
              box = \<lparr>nlines = 10, ncols = 20, begin_y = 0, begin_x = 0\<rparr>,
              title = \<lparr>nlines = 3, ncols = 18, begin_y = 1, begin_x = 1\<rparr>,
              title_str = ''Pick'', option = \<lparr>centered = False, multi = False\<rparr>,
              option_list = [], line = 0, terminate = False\<rparr>, {||})))
         \<le> int (length ([] :: string list)) - 1)
   \<and> snd (handle_keys [KEY_DOWN, 10]
           (\<lparr>info = \<lparr>height = 10, width = 20, y = 0, x = 0\<rparr>,
              main = \<lparr>nlines = 5, ncols = 18, begin_y = 4, begin_x = 1\<rparr>,
              box = \<lparr>nlines = 10, ncols = 20, begin_y = 0, begin_x = 0\<rparr>,
              title = \<lparr>nlines = 3, ncols = 18, begin_y = 1, begin_x = 1\<rparr>,
              title_str = ''Pick'', option = \<lparr>centered = False, multi = False\<rparr>,
              option_list = [], line = 0, terminate = False\<rparr>, {||})) = {|0|}"
  by (simp add: SelectionWindow_new_def DecoratedWindow_of_info_def DecoratedWindow_new_def
      BoxedWindow_new_def PlainWindow_new_def newwin_def handle_key_def move_line_def
      select_line_def KEY_DOWN_def KEY_UP_def Let_def)

lemma fcard_pos_iff: "0 < fcard s \<longleftrightarrow> s \<noteq> {||}"
  by (metis fcard_0_eq neq0_conv)

lemma yield_terminated:
  "terminate w \<Longrightarrow> SelectionWindow_yield w s ks = Some (0 < fcard s, w, s)"
  by (cases ks) simp_all

lemma yield_result:
  "SelectionWindow_yield w s ks = Some (b, w', s') \<Longrightarrow> terminate w' \<and> (b \<longleftrightarrow> s' \<noteq> {||})"
proof (induction ks arbitrary: w s)
  case Nil
  then show ?case
    by (auto simp: fcard_pos_iff split: if_splits)
next
  case (Cons c ks)
  show ?case
  proof (cases "terminate w")
    case True
    with Cons.prems show ?thesis
      by (auto simp: fcard_pos_iff)
  next
    case False
    obtain w1 s1 where st: "handle_key c (w, s) = (w1, s1)"
      by (cases "handle_key c (w, s)")
    with False Cons.prems have "SelectionWindow_yield w1 s1 ks = Some (b, w', s')"
      by simp
    then show ?thesis
      by (rule Cons.IH)
  qed
qed

lemma handle_key_escape:
  "terminate (fst (handle_key 27 (w, s))) \<and> snd (handle_key 27 (w, s)) = s"
  by (simp add: handle_key_def Let_def)

text \<open>Escape among the keys is enough for the loop to end.\<close>

lemma yield_returns: "27 \<in> set ks \<Longrightarrow> SelectionWindow_yield w s ks \<noteq> None"
proof (induction ks arbitrary: w s)
  case Nil
  then show ?case by simp
next
  case (Cons c ks)
  show ?case
  proof (cases "terminate w")
    case True
    then show ?thesis by simp
  next
    case False
    obtain w1 s1 where st: "handle_key c (w, s) = (w1, s1)"
      by (cases "handle_key c (w, s)")
    show ?thesis
    proof (cases "c = 27")
      case True
      then have "terminate w1"
        using handle_key_escape [of w s] st by simp
      then show ?thesis
        using False st by (simp add: yield_terminated)
    next
      case other: False
      with Cons.prems have "27 \<in> set ks" by simp
      from Cons.IH [OF this] show ?thesis
        using False st by simp
    qed
  qed
qed

text \<open>
  C6. Whenever the selection widget's \<open>yield\<close> returns, the widget is in the terminated
  state and the returned flag is true exactly when the caller's set, as the loop left it,
  is not empty. It does return as soon as Escape is among the keys to come.
\<close>

theorem selection_yield_value:
  "(SelectionWindow_yield w selected ks = Some (b, w', selected')
      \<longrightarrow> terminate w' \<and> (b \<longleftrightarrow> selected' \<noteq> {||}))
   \<and> (27 \<in> set ks
      \<longrightarrow> (\<exists>b w' selected'. SelectionWindow_yield w selected ks = Some (b, w', selected')))"
  using yield_result [of w selected ks b w' selected'] yield_returns [of ks w selected]
  by auto

theorem selection_yield_value_witness:
  "SelectionWindow_yield
       \<lparr>info = \<lparr>height = 10, width = 20, y = 0, x = 0\<rparr>,
          main = \<lparr>nlines = 5, ncols = 18, begin_y = 4, begin_x = 1\<rparr>,
          box = \<lparr>nlines = 10, ncols = 20, begin_y = 0, begin_x = 0\<rparr>,
          title = \<lparr>nlines = 3, ncols = 18, begin_y = 1, begin_x = 1\<rparr>,
          title_str = ''Pick'', option = \<lparr>centered = False, multi = False\<rparr>,
          option_list = [''A'', ''B'', ''C''], line = 0, terminate = False\<rparr>
       {||} [KEY_DOWN, KEY_DOWN, 10]
     = Some (True,
         \<lparr>info = \<lparr>height = 10, width = 20, y = 0, x = 0\<rparr>,
            main = \<lparr>nlines = 5, ncols = 18, begin_y = 4, begin_x = 1\<rparr>,
            box = \<lparr>nlines = 10, ncols = 20, begin_y = 0, begin_x = 0\<rparr>,
            title = \<lparr>nlines = 3, ncols = 18, begin_y = 1, begin_x = 1\<rparr>,
            title_str = ''Pick'', option = \<lparr>centered = False, multi = False\<rparr>,
            option_list = [''A'', ''B'', ''C''], line = 2, terminate = True\<rparr>,
         {|2|})
   \<and> {|2::int|} \<noteq> {||}
   \<and> (\<exists>b w' selected'.
         SelectionWindow_yield
           \<lparr>info = \<lparr>height = 10, width = 20, y = 0, x = 0\<rparr>,
              main = \<lparr>nlines = 5, ncols = 18, begin_y = 4, begin_x = 1\<rparr>,
              box = \<lparr>nlines = 10, ncols = 20, begin_y = 0, begin_x = 0\<rparr>,
              title = \<lparr>nlines = 3, ncols = 18, begin_y = 1, begin_x = 1\<rparr>,
              title_str = ''Pick'', option = \<lparr>centered = False, multi = False\<rparr>,
              option_list = [''A'', ''B'', ''C''], line = 0, terminate = False\<rparr>
           {||} [KEY_UP, 27] = Some (b, w', selected'))"
proof -
  let ?w = "\<lparr>info = \<lparr>height = 10, width = 20, y = 0, x = 0\<rparr>,
          main = \<lparr>nlines = 5, ncols = 18, begin_y = 4, begin_x = 1\<rparr>,
          box = \<lparr>nlines = 10, ncols = 20, begin_y = 0, begin_x = 0\<rparr>,
          title = \<lparr>nlines = 3, ncols = 18, begin_y = 1, begin_x = 1\<rparr>,
          title_str = ''Pick'', option = \<lparr>centered = False, multi = False\<rparr>,
          option_list = [''A'', ''B'', ''C''], line = 0, terminate = False\<rparr>"
  have run: "SelectionWindow_yield ?w {||} [KEY_DOWN, KEY_DOWN, 10]
     = Some (True, ?w\<lparr>line := 2, terminate := True\<rparr>, {|2|})"
    by (simp add: handle_key_def move_line_def select_line_def KEY_DOWN_def KEY_UP_def Let_def
        fcard_pos_iff)
  have esc: "27 \<in> set [KEY_UP, 27]" by simp
  from selection_yield_value [of ?w "{||}" "[KEY_DOWN, KEY_DOWN, 10]" True
      "?w\<lparr>line := 2, terminate := True\<rparr>" "{|2|}"] run
  have 1: "{|2::int|} \<noteq> {||}" by blast
  from selection_yield_value [of ?w "{||}" "[KEY_UP, 27]"] esc
  have 2: "\<exists>b w' selected'. SelectionWindow_yield ?w {||} [KEY_UP, 27] = Some (b, w', selected')"
    by blast
  from run 1 2 show ?thesis by simp
qed

lemma move_line_enter:
  "move_line 10 w
     = max 0 (min (line w) (if multi (option w) then int (length (option_list w))
                            else int (length (option_list w)) - 1))"
  by (simp add: move_line_def KEY_UP_def KEY_DOWN_def)

lemma move_line_idem: "move_line 10 (w\<lparr>line := move_line 10 w\<rparr>) = move_line 10 w"
  by (simp add: move_line_enter min_def max_def)

lemma handle_key_enter_fixed:
  "move_line 10 w = line w \<Longrightarrow> handle_key 10 (w, s) = select_line w s"
  by (simp add: handle_key_def)

lemma select_line_twice:
  "multi (option w) \<Longrightarrow> select_line w s = (w1, s1) \<Longrightarrow>
     line w1 = line w \<and> option w1 = option w \<and> option_list w1 = option_list w
     \<and> snd (select_line w1 s1) = s"
  by (auto simp add: select_line_def split: if_splits)

lemma enter_twice:
  assumes m: "multi (option w)"
  shows "snd (handle_key 10 (handle_key 10 (w, s))) = s"
proof -
  let ?w1 = "w\<lparr>line := move_line 10 w\<rparr>"
  obtain w2 s2 where st: "select_line ?w1 s = (w2, s2)"
    by (cases "select_line ?w1 s")
  have h1: "handle_key 10 (w, s) = (w2, s2)"
    using st by (simp add: handle_key_def)
  have m1: "multi (option ?w1)"
    using m by simp
  from select_line_twice [OF m1 st]
  have f: "line w2 = move_line 10 w" "option w2 = option w" "option_list w2 = option_list w"
    and r: "snd (select_line w2 s2) = s"
    by simp_all
  have "move_line 10 w2 = move_line 10 ?w1"
    using f by (simp add: move_line_enter)
  also have "\<dots> = move_line 10 w"
    by (rule move_line_idem)
  finally have "move_line 10 w2 = line w2"
    using f by simp
  then have "handle_key 10 (w2, s2) = select_line w2 s2"
    by (rule handle_key_enter_fixed)
  with r h1 show ?thesis by simp
qed

lemma enter_toggle:
  assumes "multi (option w)" "0 \<le> line w" "line w < int (length (option_list w))"
  shows "handle_key 10 (w, s)
     = (w, if line w |\<in>| s then s |-| {|line w|} else finsert (line w) s)"
proof -
  have "move_line 10 w = line w"
    using assms by (simp add: move_line_enter)
  then have "handle_key 10 (w, s) = select_line w s"
    by (rule handle_key_enter_fixed)
  then show ?thesis
    using assms by (simp add: select_line_def)
qed

text \<open>
  C7. In multi mode, with the highlight at an index below the option count, Enter twice
  in a row leaves the selected set as it was. When the index is also not negative (as it
  is after any key), the first Enter flips the membership of exactly that index and
  changes nothing else, and the second Enter restores widget and set.
\<close>

theorem enter_twice_restores:
  "multi (option w) \<Longrightarrow> line w < int (length (option_list w)) \<Longrightarrow>
     snd (handle_key 10 (handle_key 10 (w, selected))) = selected
     \<and> (0 \<le> line w \<longrightarrow>
          handle_key 10 (w, selected)
            = (w, if line w |\<in>| selected then selected |-| {|line w|}
                  else finsert (line w) selected)
          \<and> handle_key 10 (handle_key 10 (w, selected)) = (w, selected))"
proof -
  assume m: "multi (option w)" and l: "line w < int (length (option_list w))"
  have a: "snd (handle_key 10 (handle_key 10 (w, selected))) = selected"
    using m by (rule enter_twice)
  have b: "handle_key 10 (w, selected)
            = (w, if line w |\<in>| selected then selected |-| {|line w|}
                  else finsert (line w) selected)
          \<and> handle_key 10 (handle_key 10 (w, selected)) = (w, selected)"
    if nn: "0 \<le> line w"
  proof -
    let ?s1 = "if line w |\<in>| selected then selected |-| {|line w|}
               else finsert (line w) selected"
    have 1: "handle_key 10 (w, selected) = (w, ?s1)"
      using m nn l by (rule enter_toggle)
    have 2: "handle_key 10 (w, ?s1)
               = (w, if line w |\<in>| ?s1 then ?s1 |-| {|line w|} else finsert (line w) ?s1)"
      using m nn l by (rule enter_toggle)
    have "(if line w |\<in>| ?s1 then ?s1 |-| {|line w|} else finsert (line w) ?s1) = selected"
      by auto
    with 1 2 show ?thesis by simp
  qed
  from a b show ?thesis by blast
qed

theorem enter_twice_restores_witness:
  "handle_key 10 (handle_key 10
       (\<lparr>info = \<lparr>height = 10, width = 20, y = 0, x = 0\<rparr>,
          main = \<lparr>nlines = 5, ncols = 18, begin_y = 4, begin_x = 1\<rparr>,
          box = \<lparr>nlines = 10, ncols = 20, begin_y = 0, begin_x = 0\<rparr>,
          title = \<lparr>nlines = 3, ncols = 18, begin_y = 1, begin_x = 1\<rparr>,
          title_str = ''Pick'', option = \<lparr>centered = False, multi = True\<rparr>,
          option_list = [''A'', ''B''], line = 1, terminate = False\<rparr>, {|0|}))
     = (\<lparr>info = \<lparr>height = 10, width = 20, y = 0, x = 0\<rparr>,
          main = \<lparr>nlines = 5, ncols = 18, begin_y = 4, begin_x = 1\<rparr>,
          box = \<lparr>nlines = 10, ncols = 20, begin_y = 0, begin_x = 0\<rparr>,
          title = \<lparr>nlines = 3, ncols = 18, begin_y = 1, begin_x = 1\<rparr>,
          title_str = ''Pick'', option = \<lparr>centered = False, multi = True\<rparr>,
          option_list = [''A'', ''B''], line = 1, terminate = False\<rparr>, {|0|})"
proof -
  let ?w = "\<lparr>info = \<lparr>height = 10, width = 20, y = 0, x = 0\<rparr>,
          main = \<lparr>nlines = 5, ncols = 18, begin_y = 4, begin_x = 1\<rparr>,
          box = \<lparr>nlines = 10, ncols = 20, begin_y = 0, begin_x = 0\<rparr>,
          title = \<lparr>nlines = 3, ncols = 18, begin_y = 1, begin_x = 1\<rparr>,
          title_str = ''Pick'', option = \<lparr>centered = False, multi = True\<rparr>,
          option_list = [''A'', ''B''], line = 1, terminate = False\<rparr>"
  have m: "multi (option ?w)" by simp
  have l: "line ?w < int (length (option_list ?w))" by simp
  have n: "0 \<le> line ?w" by simp
  from enter_twice_restores [OF m l, of "{|0|}"] n show ?thesis by blast
qed

text \<open>
  C9. Escape (key 27) puts the selection widget into the terminated state and leaves the
  selected set exactly as it was: nothing toggled in before is removed. A \<open>yield\<close> whose
  next key is Escape returns with the set it was given.
\<close>

theorem escape_keeps_selected:
  "terminate (fst (handle_key 27 (w, selected)))
   \<and> snd (handle_key 27 (w, selected)) = selected
   \<and> (\<exists>w'. SelectionWindow_yield w selected (27 # ks) = Some (0 < fcard selected, w', selected))"
proof -
  obtain w1 s1 where st: "handle_key 27 (w, selected) = (w1, s1)"
    by (cases "handle_key 27 (w, selected)")
  with handle_key_escape [of w selected] have t: "terminate w1" "s1 = selected"
    by simp_all
  then have "SelectionWindow_yield w1 s1 ks = Some (0 < fcard selected, w1, selected)"
    by (simp add: yield_terminated)
  then have "\<exists>w'. SelectionWindow_yield w selected (27 # ks)
                 = Some (0 < fcard selected, w', selected)"
    using st by (cases "terminate w") auto
  with st t show ?thesis by simp
qed

theorem escape_keeps_selected_witness:
  "snd (handle_key 27
       (\<lparr>info = \<lparr>height = 10, width = 20, y = 0, x = 0\<rparr>,
          main = \<lparr>nlines = 5, ncols = 18, begin_y = 4, begin_x = 1\<rparr>,
          box = \<lparr>nlines = 10, ncols = 20, begin_y = 0, begin_x = 0\<rparr>,
          title = \<lparr>nlines = 3, ncols = 18, begin_y = 1, begin_x = 1\<rparr>,
          title_str = ''Pick'', option = \<lparr>centered = False, multi = True\<rparr>,
          option_list = [''A'', ''B''], line = 1, terminate = False\<rparr>, {|0, 1|})) = {|0, 1|}"
  using escape_keeps_selected [of
      "\<lparr>info = \<lparr>height = 10, width = 20, y = 0, x = 0\<rparr>,
          main = \<lparr>nlines = 5, ncols = 18, begin_y = 4, begin_x = 1\<rparr>,
          box = \<lparr>nlines = 10, ncols = 20, begin_y = 0, begin_x = 0\<rparr>,
          title = \<lparr>nlines = 3, ncols = 18, begin_y = 1, begin_x = 1\<rparr>,
          title_str = ''Pick'', option = \<lparr>centered = False, multi = True\<rparr>,
          option_list = [''A'', ''B''], line = 1, terminate = False\<rparr>" "{|0, 1|}" "[]"]
  by simp

section \<open>Properties of the table widget\<close>

lemma longest_fold: "longest g i ds len = fold max (map (\<lambda>d. length (g d i)) ds) len"
  by (induction ds arbitrary: len) (simp_all add: Let_def max_def)

lemma longest_Max: "longest g i ds len = Max (insert len ((\<lambda>d. length (g d i)) ` set ds))"
proof -
  have "Max (set (len # map (\<lambda>d. length (g d i)) ds))
          = fold max (map (\<lambda>d. length (g d i)) ds) len"
    by (rule Max.set_eq_fold)
  then show ?thesis
    by (simp add: longest_fold)
qed

text \<open>Writing every index below \<open>n\<close> once, in order, is a \<open>map\<close> over the indices.\<close>

lemma fold_list_update:
  "n \<le> length ls \<Longrightarrow> fold (\<lambda>i ls. ls[i := f i]) [0..<n] ls = map f [0..<n] @ drop n ls"
proof (induction n)
  case 0
  then show ?case by simp
next
  case (Suc n)
  then have "fold (\<lambda>i ls. ls[i := f i]) [0..<Suc n] ls = (map f [0..<n] @ drop n ls)[n := f n]"
    by simp
  also have "\<dots> = map f [0..<n] @ (drop n ls)[0 := f n]"
    by (simp add: list_update_append)
  also have "(drop n ls)[0 := f n] = f n # drop (Suc n) ls"
    using Suc.prems by (cases "drop n ls") (auto simp: drop_Suc drop_tl)
  finally show ?case by simp
qed

lemma get_lengths_lengths:
  "lengths (get_lengths t)
     = map (\<lambda>i. longest (generator t) i (data t) (length (headers t ! i)))
         [0..<length (headers t)]"
  by (simp add: get_lengths_def fold_list_update)

lemma get_lengths_frame:
  "headers (get_lengths t) = headers t"
  "data (get_lengths t) = data t"
  "generator (get_lengths t) = generator t"
  "main (get_lengths t) = main t"
  by (simp_all add: get_lengths_def)

lemma Table_init_frame:
  "headers (Table_init f h w py px) = from_headers f"
  "data (Table_init f h w py px) = from_data f"
  "generator (Table_init f h w py px) = from_generator f"
  "lengths (Table_init f h w py px) = from_lengths f"
  "main (Table_init f h w py px) = newwin h w py px"
  by (simp_all add: Table_init_def PlainWindow_new_def Let_def)

lemma resize_frame:
  "headers (fst (resize t a b)) = headers t"
  "data (fst (resize t a b)) = data t"
  "generator (fst (resize t a b)) = generator t"
  "lengths (fst (resize t a b)) = lengths t"
  "main (fst (resize t a b)) = wresize (main t) a b"
  "snd (resize t a b) = [Resize a b]"
  by (simp_all add: resize_def)

lemma cell_eq:
  "cell s l = (if length s < l \<and> l > max_size then Inl LengthError
               else Inr (take l s @ replicate (l - length s) CHR '' ''))"
  by (auto simp: cell_def Let_def)

lemma cell_Inr:
  "cell s l = Inr c \<Longrightarrow> c = take l s @ replicate (l - length s) CHR '' '' \<and> length c = l"
  by (auto simp: cell_eq split: if_splits)

lemma cell_ok: "l \<le> max_size \<Longrightarrow> \<exists>c. cell s l = Inr c"
  by (simp add: cell_eq)

lemma length_c_str: "length (c_str s) \<le> length s"
  by (simp add: c_str_def length_takeWhile_le)

text \<open>The bars write glyphs only, and the header row writes the headers.\<close>

lemma bar_loop_no_text: "MvPrintf a b s \<notin> set (bar_loop mid corner ls n ln px js)"
  by (induction js arbitrary: px) (auto simp: Let_def)

lemma bar_no_text: "MvPrintf a b s \<notin> set (bar left mid corner t ln)"
  by (simp add: bar_def bar_loop_no_text)

lemma header_loop_texts:
  "MvPrintf a b s \<in> set (header_loop hs ls ln px js) \<Longrightarrow>
     \<exists>i\<in>set js. s = '' '' @ c_str (hs ! i) @ '' ''"
  by (induction js arbitrary: px) (auto simp: Let_def)

text \<open>Every text a data row writes is a cell between two spaces, and every cell is written.\<close>

lemma row_loop_texts:
  "row_loop gd ls hl ln px js = Inr cs \<Longrightarrow> MvPrintf a b s \<in> set cs \<Longrightarrow>
     \<exists>i\<in>set js. \<exists>c. cell (gd i) (ls ! i) = Inr c \<and> s = '' '' @ c_str c @ '' ''"
proof (induction js arbitrary: px cs)
  case Nil
  then show ?case by simp
next
  case (Cons i js)
  from Cons.prems(1) obtain c cs' where
    c: "cell (gd i) (ls ! i) = Inr c"
    and r: "row_loop gd ls hl ln (px + of_nat (ls ! i) + 3) js = Inr cs'"
    and cs: "cs = (if hl then [AttrSet A_REVERSE] else [])
                  @ [MvPrintf ln px ('' '' @ c_str c @ '' '')]
                  @ (if hl then [AttrSet A_NORMAL] else [])
                  @ [MvAddCh ln (px + of_nat (ls ! i) + 3 - 1) ACS_VLINE] @ cs'"
    by (auto simp: Let_def split: sum.splits)
  from Cons.prems(2) cs consider
    (here) "s = '' '' @ c_str c @ '' ''" | (rest) "MvPrintf a b s \<in> set cs'"
    by (auto split: if_splits)
  then show ?case
  proof cases
    case here
    with c show ?thesis by auto
  next
    case rest
    from Cons.IH [OF r rest] show ?thesis by auto
  qed
qed

lemma row_loop_cells:
  "row_loop gd ls hl ln px js = Inr cs \<Longrightarrow> i \<in> set js \<Longrightarrow>
     \<exists>c b. cell (gd i) (ls ! i) = Inr c \<and> MvPrintf ln b ('' '' @ c_str c @ '' '') \<in> set cs"
proof (induction js arbitrary: px cs)
  case Nil
  then show ?case by simp
next
  case (Cons j js)
  from Cons.prems(1) obtain c cs' where
    c: "cell (gd j) (ls ! j) = Inr c"
    and r: "row_loop gd ls hl ln (px + of_nat (ls ! j) + 3) js = Inr cs'"
    and e: "cs = (if hl then [AttrSet A_REVERSE] else [])
                  @ [MvPrintf ln px ('' '' @ c_str c @ '' '')]
                  @ (if hl then [AttrSet A_NORMAL] else [])
                  @ [MvAddCh ln (px + of_nat (ls ! j) + 3 - 1) ACS_VLINE] @ cs'"
    by (auto simp: Let_def split: sum.splits)
  have cs: "MvPrintf ln px ('' '' @ c_str c @ '' '') \<in> set cs" "set cs' \<subseteq> set cs"
    unfolding e by auto
  show ?case
  proof (cases "i = j")
    case True
    with c cs show ?thesis by auto
  next
    case False
    with Cons.prems(2) have "i \<in> set js" by simp
    from Cons.IH [OF r this] cs(2) show ?thesis by blast
  qed
qed

lemma data_loop_texts:
  "data_loop t hl n ln ds = Inr cs \<Longrightarrow> MvPrintf a b s \<in> set cs \<Longrightarrow>
     \<exists>d\<in>set ds. \<exists>i<length (headers t). \<exists>c.
       cell (generator t d i) (lengths t ! i) = Inr c \<and> s = '' '' @ c_str c @ '' ''"
proof (induction ds arbitrary: n ln cs)
  case Nil
  then show ?case by simp
next
  case (Cons d ds)
  from Cons.prems(1) obtain row cs' where
    row: "row_loop (generator t d) (lengths t) (n = to_size_t (sint hl)) ln 1
            [0..<length (headers t)] = Inr row"
    and r: "data_loop t hl (Suc n) (ln + 1) ds = Inr cs'"
    and cs: "cs = row @ [MvAddCh ln 0 ACS_VLINE] @ cs'"
    by (auto split: sum.splits)
  from Cons.prems(2) cs consider
    (row) "MvPrintf a b s \<in> set row" | (rest) "MvPrintf a b s \<in> set cs'"
    by auto
  then show ?case
  proof cases
    case row
    from row_loop_texts [OF \<open>row_loop _ _ _ _ _ _ = Inr row\<close> this] show ?thesis by auto
  next
    case rest
    from Cons.IH [OF r rest] show ?thesis by auto
  qed
qed

lemma data_loop_cells:
  "data_loop t hl n ln ds = Inr cs \<Longrightarrow> k < length ds \<Longrightarrow> i < length (headers t) \<Longrightarrow>
     \<exists>c b. cell (generator t (ds ! k) i) (lengths t ! i) = Inr c
       \<and> MvPrintf (ln + of_nat k) b ('' '' @ c_str c @ '' '') \<in> set cs"
proof (induction ds arbitrary: n ln cs k)
  case Nil
  then show ?case by simp
next
  case (Cons d ds)
  from Cons.prems(1) obtain row cs' where
    row: "row_loop (generator t d) (lengths t) (n = to_size_t (sint hl)) ln 1
            [0..<length (headers t)] = Inr row"
    and r: "data_loop t hl (Suc n) (ln + 1) ds = Inr cs'"
    and e: "cs = row @ [MvAddCh ln 0 ACS_VLINE] @ cs'"
    by (auto split: sum.splits)
  have cs: "set row \<subseteq> set cs" "set cs' \<subseteq> set cs"
    unfolding e by auto
  show ?case
  proof (cases k)
    case 0
    have "i \<in> set [0..<length (headers t)]" using Cons.prems(3) by simp
    from row_loop_cells [OF row this] cs(1) 0 show ?thesis by auto
  next
    case (Suc k')
    with Cons.prems(2) have "k' < length ds" by simp
    from Cons.IH [OF r this Cons.prems(3)] obtain c b where
      "cell (generator t (ds ! k') i) (lengths t ! i) = Inr c"
      "MvPrintf (ln + 1 + of_nat k') b ('' '' @ c_str c @ '' '') \<in> set cs'"
      by blast
    with cs(2) Suc show ?thesis by (auto simp: add.assoc)
  qed
qed

lemma row_loop_ok:
  "\<forall>i \<in> set js. ls ! i \<le> max_size \<Longrightarrow> \<exists>row. row_loop gd ls hl ln px js = Inr row"
proof (induction js arbitrary: px)
  case Nil
  then show ?case by simp
next
  case (Cons j js)
  then have "ls ! j \<le> max_size" by simp
  from cell_ok [OF this] obtain c where c: "cell (gd j) (ls ! j) = Inr c"
    by blast
  from Cons obtain row where "row_loop gd ls hl ln (px + of_nat (ls ! j) + 3) js = Inr row"
    by fastforce
  with c show ?case
    by (simp add: Let_def)
qed

lemma data_loop_ok:
  assumes "\<forall>i < length (headers t). lengths t ! i \<le> max_size"
  shows "\<exists>cs. data_loop t hl n ln ds = Inr cs"
proof (induction ds arbitrary: n ln)
  case Nil
  then show ?case by simp
next
  case (Cons d ds)
  have "\<forall>i \<in> set [0..<length (headers t)]. lengths t ! i \<le> max_size"
    using assms by simp
  from row_loop_ok [OF this, of "generator t d" "n = to_size_t (sint hl)" ln 1]
  obtain row where
    "row_loop (generator t d) (lengths t) (n = to_size_t (sint hl)) ln 1
       [0..<length (headers t)] = Inr row"
    by blast
  moreover from Cons [of "Suc n" "ln + 1"] obtain cs where
    "data_loop t hl (Suc n) (ln + 1) ds = Inr cs"
    by blast
  ultimately show ?case by simp
qed

lemma write_table_Inr:
  "write_table t hl = Inr cs \<Longrightarrow>
     \<exists>rows. data_loop t hl 0 3 (data t) = Inr rows
       \<and> cs = bar ACS_ULCORNER ACS_TTEE ACS_URCORNER t 0
              @ header_loop (headers t) (lengths t) 1 1 [0..<length (headers t)]
              @ [MvAddCh 1 0 ACS_VLINE]
              @ bar ACS_LTEE ACS_PLUS ACS_RTEE t 2
              @ rows
              @ bar ACS_LLCORNER ACS_BTEE ACS_LRCORNER t (3 + of_nat (length (data t)))"
  by (auto simp: write_table_def split: if_splits sum.splits)

lemma write_table_ok:
  "length (headers t) \<le> length (lengths t) \<Longrightarrow>
   \<forall>i < length (headers t). lengths t ! i \<le> max_size \<Longrightarrow> \<exists>ds. write_table t hl = Inr ds"
  using data_loop_ok [of t hl 0 3 "data t"] by (auto simp: write_table_def)

lemma new_width_sum: "new_width ls = 1 + (\<Sum>l\<leftarrow>ls. of_nat l + 3)"
proof -
  have "fold (\<lambda>l nw. nw + of_nat l + 3) ls a = a + (\<Sum>l\<leftarrow>ls. of_nat l + 3)" for a :: int32
    by (induction ls arbitrary: a) simp_all
  then show ?thesis
    by (simp add: new_width_def)
qed

lemma longest_le:
  "len \<le> m \<Longrightarrow> \<forall>d\<in>set ds. length (g d i) \<le> m \<Longrightarrow> longest g i ds len \<le> m"
  by (induction ds arbitrary: len) (simp_all add: Let_def)

lemma Table_new_derived:
  assumes "from_lengths f = []"
    and ok: "\<forall>i < length (from_headers f). length (from_headers f ! i) \<le> max_size
               \<and> (\<forall>d\<in>set (from_data f). length (from_generator f d i) \<le> max_size)"
  shows "\<exists>t cs. Table_new f h w py px = Inr (t, cs)
     \<and> headers t = from_headers f \<and> data t = from_data f \<and> generator t = from_generator f
     \<and> lengths t = map (\<lambda>i. longest (from_generator f) i (from_data f)
                                (length (from_headers f ! i))) [0..<length (from_headers f)]"
proof -
  define t1 where "t1 = get_lengths (Table_init f h w py px)"
  define r where "r = (if auto_resize f
               then resize t1 (of_nat (length (data t1)) + 4) (new_width (lengths t1))
               else (t1, []))"
  have t1: "headers t1 = from_headers f" "data t1 = from_data f"
    "generator t1 = from_generator f"
    "lengths t1 = map (\<lambda>i. longest (from_generator f) i (from_data f)
                               (length (from_headers f ! i))) [0..<length (from_headers f)]"
    by (simp_all add: t1_def get_lengths_frame get_lengths_lengths Table_init_frame)
  have fr: "headers (fst r) = headers t1" "data (fst r) = data t1"
    "generator (fst r) = generator t1" "lengths (fst r) = lengths t1"
    by (simp_all add: r_def resize_frame)
  have 1: "length (headers (fst r)) \<le> length (lengths (fst r))"
    using fr t1 by simp
  have 2: "\<forall>i < length (headers (fst r)). lengths (fst r) ! i \<le> max_size"
    using fr t1 ok by (simp add: longest_le)
  from write_table_ok [OF 1 2] obtain ds where ds: "write_table (fst r) (- 1) = Inr ds"
    by blast
  have "Table_new f h w py px = (case write_table (fst r) (- 1) of
           Inl e \<Rightarrow> Inl e
         | Inr ds \<Rightarrow> Inr (fst r, snd r @ ds @ [Refresh]))"
    unfolding Table_new_def Let_def r_def t1_def
    using assms(1) by (simp only: Table_init_frame simp_thms if_True)
  then have "Table_new f h w py px = Inr (fst r, snd r @ ds @ [Refresh])"
    using ds by simp
  then show ?thesis
    using fr t1 by simp
qed

text \<open>Every operation of the table draws through \<open>write_table\<close>.\<close>

lemma Table_new_draws:
  "Table_new f h w py px = Inr (t, cs) \<Longrightarrow>
     \<exists>ds. write_table t (- 1) = Inr ds \<and> set ds \<subseteq> set cs"
  by (auto simp: Table_new_def Let_def split: sum.splits)

lemma set_data_draws:
  "set_data t d ar = Inr (t', cs) \<Longrightarrow>
     (\<exists>ds. write_table t' (- 1) = Inr ds \<and> set ds \<subseteq> set cs)
     \<and> data t' = d \<and> headers t' = headers t \<and> generator t' = generator t
     \<and> (\<not> ar \<longrightarrow> lengths t' = lengths t)"
  by (auto simp: set_data_def Let_def resize_def get_lengths_frame split: sum.splits if_splits)

lemma set_lengths_draws:
  "set_lengths t ls = Inr (t', cs) \<Longrightarrow>
     (\<exists>ds. write_table t' (- 1) = Inr ds \<and> set ds \<subseteq> set cs) \<and> t' = t\<lparr>lengths := ls\<rparr>"
  by (auto simp: set_lengths_def Let_def split: sum.splits)

lemma set_generator_draws:
  "set_generator t g = Inr (t', cs) \<Longrightarrow>
     (\<exists>ds. write_table t' (- 1) = Inr ds \<and> set ds \<subseteq> set cs) \<and> t' = t\<lparr>generator := g\<rparr>"
  by (auto simp: set_generator_def Let_def split: sum.splits)

lemma highlight_row_draws:
  "highlight_row t row = Inr (t', cs) \<Longrightarrow>
     (\<exists>ds. write_table t' row = Inr ds \<and> set ds \<subseteq> set cs) \<and> t' = t"
  by (auto simp: highlight_row_def split: sum.splits)

text \<open>What \<open>write_table\<close> writes as text.\<close>

lemma write_table_cells:
  assumes "write_table t hl = Inr cs" "n < length (data t)" "i < length (headers t)"
  shows "\<exists>b. MvPrintf (3 + of_nat n) b
             ('' '' @ c_str (take (lengths t ! i) (generator t (data t ! n) i)
                             @ replicate (lengths t ! i - length (generator t (data t ! n) i))
                                 CHR '' '')
              @ '' '') \<in> set cs"
proof -
  from write_table_Inr [OF assms(1)] obtain rows where
    d: "data_loop t hl 0 3 (data t) = Inr rows"
    and e: "cs = bar ACS_ULCORNER ACS_TTEE ACS_URCORNER t 0
              @ header_loop (headers t) (lengths t) 1 1 [0..<length (headers t)]
              @ [MvAddCh 1 0 ACS_VLINE]
              @ bar ACS_LTEE ACS_PLUS ACS_RTEE t 2
              @ rows
              @ bar ACS_LLCORNER ACS_BTEE ACS_LRCORNER t (3 + of_nat (length (data t)))"
    by blast
  have s: "set rows \<subseteq> set cs"
    unfolding e by auto
  from data_loop_cells [OF d assms(2,3)] obtain c b where
    c: "cell (generator t (data t ! n) i) (lengths t ! i) = Inr c"
    and m: "MvPrintf (3 + of_nat n) b ('' '' @ c_str c @ '' '') \<in> set rows"
    by blast
  from cell_Inr [OF c] m s show ?thesis by auto
qed

lemma write_table_texts:
  assumes "write_table t hl = Inr cs" "MvPrintf a b s \<in> set cs"
  shows "(\<exists>i < length (headers t). s = '' '' @ c_str (headers t ! i) @ '' '')
     \<or> (\<exists>d \<in> set (data t). \<exists>i < length (headers t). \<exists>c.
           cell (generator t d i) (lengths t ! i) = Inr c \<and> length c = lengths t ! i
           \<and> s = '' '' @ c_str c @ '' '')"
proof -
  from write_table_Inr [OF assms(1)] obtain rows where
    d: "data_loop t hl 0 3 (data t) = Inr rows"
    and cs: "cs = bar ACS_ULCORNER ACS_TTEE ACS_URCORNER t 0
              @ header_loop (headers t) (lengths t) 1 1 [0..<length (headers t)]
              @ [MvAddCh 1 0 ACS_VLINE]
              @ bar ACS_LTEE ACS_PLUS ACS_RTEE t 2
              @ rows
              @ bar ACS_LLCORNER ACS_BTEE ACS_LRCORNER t (3 + of_nat (length (data t)))"
    by blast
  from assms(2) cs consider
    (hdr) "MvPrintf a b s \<in> set (header_loop (headers t) (lengths t) 1 1 [0..<length (headers t)])"
    | (rows) "MvPrintf a b s \<in> set rows"
    by (auto simp: bar_no_text)
  then show ?thesis
  proof cases
    case hdr
    from header_loop_texts [OF this] show ?thesis by auto
  next
    case rows
    from data_loop_texts [OF d this] obtain dd i c where
      "dd \<in> set (data t)" "i < length (headers t)"
      "cell (generator t dd i) (lengths t ! i) = Inr c" "s = '' '' @ c_str c @ '' ''"
      by blast
    moreover from cell_Inr [OF this(3)] have "length c = lengths t ! i" by simp
    ultimately show ?thesis by blast
  qed
qed

text \<open>
  C3. \<open>_get_lengths\<close> gives one width per header, and the width of column \<open>i\<close> is the
  maximum of the header's length and the lengths of \<open>generator(row, i)\<close> over the rows; a
  table constructed without supplied widths, from strings no longer than \<open>max_size\<close>, is
  constructed with exactly these widths. Whenever \<open>write_table\<close> returns, with whatever
  widths the table holds then (derived, supplied or left over from earlier data): for
  every row and column it has written, on the row's line, the generated text cut to the
  column's width and padded with spaces up to it, between two spaces; and every text it
  has written is a header or such a cell, whose length is the column's width. The
  constructor and \<open>set_data\<close>, \<open>set_lengths\<close>, \<open>set_generator\<close>, \<open>highlight_row\<close> all
  draw through \<open>write_table\<close> on the table they return; \<open>set_data\<close> without \<open>auto_resize\<close>
  keeps the widths.
\<close>

theorem derived_column_widths:
  "length (lengths (get_lengths t0)) = length (headers t0)
   \<and> (\<forall>i < length (headers t0).
         lengths (get_lengths t0) ! i
           = Max (insert (length (headers t0 ! i))
                   ((\<lambda>d. length (generator t0 d i)) ` set (data t0))))
   \<and> (from_lengths f = []
        \<and> (\<forall>i < length (from_headers f). length (from_headers f ! i) \<le> max_size
              \<and> (\<forall>d\<in>set (from_data f). length (from_generator f d i) \<le> max_size)) \<longrightarrow>
        (\<exists>t cs. Table_new f h w py px = Inr (t, cs)
           \<and> length (lengths t) = length (from_headers f)
           \<and> (\<forall>i < length (from_headers f).
                 lengths t ! i
                   = Max (insert (length (from_headers f ! i))
                           ((\<lambda>d. length (from_generator f d i)) ` set (from_data f))))))
   \<and> (write_table tw hl = Inr cw \<longrightarrow>
        (\<forall>n < length (data tw). \<forall>i < length (headers tw).
           \<exists>b. MvPrintf (3 + of_nat n) b
                 ('' '' @ c_str (take (lengths tw ! i) (generator tw (data tw ! n) i)
                                 @ replicate
                                     (lengths tw ! i - length (generator tw (data tw ! n) i))
                                     CHR '' '')
                  @ '' '') \<in> set cw)
        \<and> (\<forall>a b s. MvPrintf a b s \<in> set cw \<longrightarrow>
              (\<exists>i < length (headers tw). s = '' '' @ c_str (headers tw ! i) @ '' '')
              \<or> (\<exists>d \<in> set (data tw). \<exists>i < length (headers tw). \<exists>c.
                    cell (generator tw d i) (lengths tw ! i) = Inr c
                    \<and> length c = lengths tw ! i \<and> s = '' '' @ c_str c @ '' '')))
   \<and> (Table_new f h w py px = Inr (t1, cs1) \<longrightarrow>
        (\<exists>ds. write_table t1 (- 1) = Inr ds \<and> set ds \<subseteq> set cs1))
   \<and> (set_data t d ar = Inr (t2, cs2) \<longrightarrow>
        (\<exists>ds. write_table t2 (- 1) = Inr ds \<and> set ds \<subseteq> set cs2)
        \<and> data t2 = d \<and> headers t2 = headers t \<and> generator t2 = generator t
        \<and> (\<not> ar \<longrightarrow> lengths t2 = lengths t))
   \<and> (set_lengths t ls = Inr (t3, cs3) \<longrightarrow>
        (\<exists>ds. write_table t3 (- 1) = Inr ds \<and> set ds \<subseteq> set cs3) \<and> t3 = t\<lparr>lengths := ls\<rparr>)
   \<and> (set_generator t g = Inr (t4, cs4) \<longrightarrow>
        (\<exists>ds. write_table t4 (- 1) = Inr ds \<and> set ds \<subseteq> set cs4) \<and> t4 = t\<lparr>generator := g\<rparr>)
   \<and> (highlight_row t row = Inr (t5, cs5) \<longrightarrow>
        (\<exists>ds. write_table t5 row = Inr ds \<and> set ds \<subseteq> set cs5) \<and> t5 = t)"
proof -
  have g1: "length (lengths (get_lengths t0)) = length (headers t0)"
    by (simp add: get_lengths_lengths)
  have g2: "\<forall>i < length (headers t0).
         lengths (get_lengths t0) ! i
           = Max (insert (length (headers t0 ! i))
                   ((\<lambda>d. length (generator t0 d i)) ` set (data t0)))"
    by (simp add: get_lengths_lengths longest_Max)
  have c0: "\<exists>t cs. Table_new f h w py px = Inr (t, cs)
           \<and> length (lengths t) = length (from_headers f)
           \<and> (\<forall>i < length (from_headers f).
                 lengths t ! i
                   = Max (insert (length (from_headers f ! i))
                           ((\<lambda>d. length (from_generator f d i)) ` set (from_data f))))"
    if "from_lengths f = []"
      "\<forall>i < length (from_headers f). length (from_headers f ! i) \<le> max_size
              \<and> (\<forall>d\<in>set (from_data f). length (from_generator f d i) \<le> max_size)"
  proof -
    from Table_new_derived [OF that, of h w py px] obtain t cs where
      new: "Table_new f h w py px = Inr (t, cs)"
      and ls: "lengths t = map (\<lambda>i. longest (from_generator f) i (from_data f)
                                   (length (from_headers f ! i))) [0..<length (from_headers f)]"
      by blast
    have "length (lengths t) = length (from_headers f)"
      using ls by simp
    moreover have "\<forall>i < length (from_headers f).
                lengths t ! i
                  = Max (insert (length (from_headers f ! i))
                          ((\<lambda>d. length (from_generator f d i)) ` set (from_data f)))"
      using ls by (simp add: longest_Max)
    ultimately show ?thesis
      using new by blast
  qed
  then have c: "from_lengths f = []
        \<and> (\<forall>i < length (from_headers f). length (from_headers f ! i) \<le> max_size
              \<and> (\<forall>d\<in>set (from_data f). length (from_generator f d i) \<le> max_size)) \<longrightarrow>
        (\<exists>t cs. Table_new f h w py px = Inr (t, cs)
           \<and> length (lengths t) = length (from_headers f)
           \<and> (\<forall>i < length (from_headers f).
                 lengths t ! i
                   = Max (insert (length (from_headers f ! i))
                           ((\<lambda>d. length (from_generator f d i)) ` set (from_data f)))))"
    by blast
  have w0: "(\<forall>n < length (data tw). \<forall>i < length (headers tw).
           \<exists>b. MvPrintf (3 + of_nat n) b
                 ('' '' @ c_str (take (lengths tw ! i) (generator tw (data tw ! n) i)
                                 @ replicate
                                     (lengths tw ! i - length (generator tw (data tw ! n) i))
                                     CHR '' '')
                  @ '' '') \<in> set cw)
        \<and> (\<forall>a b s. MvPrintf a b s \<in> set cw \<longrightarrow>
              (\<exists>i < length (headers tw). s = '' '' @ c_str (headers tw ! i) @ '' '')
              \<or> (\<exists>d \<in> set (data tw). \<exists>i < length (headers tw). \<exists>c.
                    cell (generator tw d i) (lengths tw ! i) = Inr c
                    \<and> length c = lengths tw ! i \<and> s = '' '' @ c_str c @ '' ''))"
    if "write_table tw hl = Inr cw"
    using write_table_cells [OF that] write_table_texts [OF that] by blast
  then have w: "write_table tw hl = Inr cw \<longrightarrow>
        (\<forall>n < length (data tw). \<forall>i < length (headers tw).
           \<exists>b. MvPrintf (3 + of_nat n) b
                 ('' '' @ c_str (take (lengths tw ! i) (generator tw (data tw ! n) i)
                                 @ replicate
                                     (lengths tw ! i - length (generator tw (data tw ! n) i))
                                     CHR '' '')
                  @ '' '') \<in> set cw)
        \<and> (\<forall>a b s. MvPrintf a b s \<in> set cw \<longrightarrow>
              (\<exists>i < length (headers tw). s = '' '' @ c_str (headers tw ! i) @ '' '')
              \<or> (\<exists>d \<in> set (data tw). \<exists>i < length (headers tw). \<exists>c.
                    cell (generator tw d i) (lengths tw ! i) = Inr c
                    \<and> length c = lengths tw ! i \<and> s = '' '' @ c_str c @ '' ''))"
    by (rule impI)
  have o1: "Table_new f h w py px = Inr (t1, cs1) \<longrightarrow>
        (\<exists>ds. write_table t1 (- 1) = Inr ds \<and> set ds \<subseteq> set cs1)"
    using Table_new_draws [of f h w py px t1 cs1] by blast
  have o2: "set_data t d ar = Inr (t2, cs2) \<longrightarrow>
        (\<exists>ds. write_table t2 (- 1) = Inr ds \<and> set ds \<subseteq> set cs2)
        \<and> data t2 = d \<and> headers t2 = headers t \<and> generator t2 = generator t
        \<and> (\<not> ar \<longrightarrow> lengths t2 = lengths t)"
    using set_data_draws [of t d ar t2 cs2] by blast
  have o3: "set_lengths t ls = Inr (t3, cs3) \<longrightarrow>
        (\<exists>ds. write_table t3 (- 1) = Inr ds \<and> set ds \<subseteq> set cs3) \<and> t3 = t\<lparr>lengths := ls\<rparr>"
    using set_lengths_draws [of t ls t3 cs3] by blast
  have o4: "set_generator t g = Inr (t4, cs4) \<longrightarrow>
        (\<exists>ds. write_table t4 (- 1) = Inr ds \<and> set ds \<subseteq> set cs4) \<and> t4 = t\<lparr>generator := g\<rparr>"
    using set_generator_draws [of t g t4 cs4] by blast
  have o5: "highlight_row t row = Inr (t5, cs5) \<longrightarrow>
        (\<exists>ds. write_table t5 row = Inr ds \<and> set ds \<subseteq> set cs5) \<and> t5 = t"
    using highlight_row_draws [of t row t5 cs5] by blast
  show ?thesis
    by (intro conjI; fact)
qed

lemma short_le_max_size: "n \<le> 1000 \<Longrightarrow> n \<le> max_size"
  by (simp add: max_size_def)

theorem derived_column_widths_witness:
  "(\<exists>t cs. Table_new
       \<lparr>from_headers = [''Name'', ''Age''], from_data = [(''Al'', ''30''), (''Bo'', ''5'')],
          from_generator = (\<lambda>r i. if i = 0 then fst r else snd r), from_lengths = [],
          auto_resize = False\<rparr> 10 20 0 0 = Inr (t, cs)
      \<and> lengths t ! 0 = 4 \<and> lengths t ! 1 = 3 \<and> length (lengths t) = 2)
   \<and> (\<exists>t' cs' b. set_data
          \<lparr>info = \<lparr>height = 10, width = 20, y = 0, x = 0\<rparr>,
             main = \<lparr>nlines = 10, ncols = 20, begin_y = 0, begin_x = 0\<rparr>,
             headers = [''Name'', ''Age''], data = [(''Al'', ''30''), (''Bo'', ''5'')],
             lengths = [4, 3],
             generator = (\<lambda>r i. if i = 0 then fst r else snd r)\<rparr>
          [(''Alexander'', ''7'')] False = Inr (t', cs')
      \<and> lengths t' = [4, 3]
      \<and> MvPrintf 3 b '' Alex '' \<in> set cs')"
proof -
  let ?f = "\<lparr>from_headers = [''Name'', ''Age''], from_data = [(''Al'', ''30''), (''Bo'', ''5'')],
          from_generator = (\<lambda>r i. if i = 0 then fst r else snd r), from_lengths = [],
          auto_resize = False\<rparr> :: (string \<times> string) From"
  let ?t = "\<lparr>info = \<lparr>height = 10, width = 20, y = 0, x = 0\<rparr>,
             main = \<lparr>nlines = 10, ncols = 20, begin_y = 0, begin_x = 0\<rparr>,
             headers = [''Name'', ''Age''], data = [(''Al'', ''30''), (''Bo'', ''5'')],
             lengths = [4, 3],
             generator = (\<lambda>r i. if i = 0 then fst r else snd r)\<rparr> :: (string \<times> string) Table"
  have e: "from_lengths ?f = []
        \<and> (\<forall>i < length (from_headers ?f). length (from_headers ?f ! i) \<le> max_size
              \<and> (\<forall>d\<in>set (from_data ?f). length (from_generator ?f d i) \<le> max_size))"
    by (auto simp: less_Suc_eq_0_disj intro!: short_le_max_size)
  note c3 = derived_column_widths [where f = ?f and h = 10 and w = 20 and py = 0 and px = 0,
      THEN conjunct2, THEN conjunct2, THEN conjunct1]
  from mp [OF c3 e] obtain t cs where
    new: "Table_new ?f 10 20 0 0 = Inr (t, cs)"
    and n: "length (lengths t) = length (from_headers ?f)"
    and l: "\<forall>i < length (from_headers ?f).
              lengths t ! i
                = Max (insert (length (from_headers ?f ! i))
                        ((\<lambda>d. length (from_generator ?f d i)) ` set (from_data ?f)))"
    by blast
  from l have "lengths t ! 0 = 4" by simp
  moreover from l have "lengths t ! 1 = 3" by simp
  ultimately have 1: "\<exists>t cs. Table_new ?f 10 20 0 0 = Inr (t, cs)
      \<and> lengths t ! 0 = 4 \<and> lengths t ! 1 = 3 \<and> length (lengths t) = 2"
    using new n by simp
  have "\<forall>i < length (headers (?t\<lparr>data := [(''Alexander'', ''7'')]\<rparr>)).
          lengths (?t\<lparr>data := [(''Alexander'', ''7'')]\<rparr>) ! i \<le> max_size"
    by (auto simp: less_Suc_eq_0_disj intro!: short_le_max_size)
  from write_table_ok [OF _ this, of "- 1"] obtain ds where
    "write_table (?t\<lparr>data := [(''Alexander'', ''7'')]\<rparr>) (- 1) = Inr ds"
    by auto
  then have "\<exists>t' cs'. set_data ?t [(''Alexander'', ''7'')] False = Inr (t', cs')"
    by (simp add: set_data_def Let_def)
  then obtain t' cs' where sd: "set_data ?t [(''Alexander'', ''7'')] False = Inr (t', cs')"
    by blast
  note c6 = derived_column_widths [where t = ?t and d = "[(''Alexander'', ''7'')]"
      and ar = False and ?t2.0 = t' and ?cs2.0 = cs',
      THEN conjunct2, THEN conjunct2, THEN conjunct2, THEN conjunct2, THEN conjunct2,
      THEN conjunct1]
  from mp [OF c6 sd] obtain ds' where wt: "write_table t' (- 1) = Inr ds'" and sub: "set ds' \<subseteq> set cs'"
    and fr: "data t' = [(''Alexander'', ''7'')]" "headers t' = headers ?t"
      "generator t' = generator ?t" "lengths t' = lengths ?t"
    by blast
  note c4 = derived_column_widths [where tw = t' and hl = "- 1" and cw = ds',
      THEN conjunct2, THEN conjunct2, THEN conjunct2, THEN conjunct1]
  from mp [OF c4 wt] have "\<forall>n < length (data t'). \<forall>i < length (headers t').
           \<exists>b. MvPrintf (3 + of_nat n) b
                 ('' '' @ c_str (take (lengths t' ! i) (generator t' (data t' ! n) i)
                                 @ replicate
                                     (lengths t' ! i - length (generator t' (data t' ! n) i))
                                     CHR '' '')
                  @ '' '') \<in> set ds'"
    by blast
  then have all: "\<And>n i. n < length (data t') \<Longrightarrow> i < length (headers t') \<Longrightarrow>
           \<exists>b. MvPrintf (3 + of_nat n) b
                 ('' '' @ c_str (take (lengths t' ! i) (generator t' (data t' ! n) i)
                                 @ replicate
                                     (lengths t' ! i - length (generator t' (data t' ! n) i))
                                     CHR '' '')
                  @ '' '') \<in> set ds'"
    by blast
  have n0: "0 < length (data t')" "0 < length (headers t')"
    using fr by simp_all
  from all [OF n0]
  have "\<exists>b. MvPrintf (3 + of_nat 0) b
                 ('' '' @ c_str (take (lengths t' ! 0) (generator t' (data t' ! 0) 0)
                                 @ replicate
                                     (lengths t' ! 0 - length (generator t' (data t' ! 0) 0))
                                     CHR '' '')
                  @ '' '') \<in> set ds'" .
  then have "\<exists>b. MvPrintf 3 b '' Alex '' \<in> set ds'"
    using fr by (simp add: c_str_def)
  with sub sd fr have 2: "\<exists>t' cs' b. set_data ?t [(''Alexander'', ''7'')] False = Inr (t', cs')
      \<and> lengths t' = [4, 3] \<and> MvPrintf 3 b '' Alex '' \<in> set cs'"
    by auto
  from 1 2 show ?thesis by blast
qed

text \<open>
  The two places that resize on request. The constructor resizes to
  (rows + 4, 1 + the sum over the columns of width + 3) and draws afterwards.
\<close>

lemma Table_new_auto_resize:
  assumes "auto_resize f" "Table_new f h w py px = Inr (t, cs)"
  shows "main t = wresize (newwin h w py px) (of_nat (length (from_data f)) + 4)
                    (1 + (\<Sum>l\<leftarrow>lengths t. of_nat l + 3))
     \<and> (\<exists>ds. write_table t (- 1) = Inr ds
           \<and> cs = Resize (of_nat (length (from_data f)) + 4)
                    (1 + (\<Sum>l\<leftarrow>lengths t. of_nat l + 3))
                    # ds @ [Refresh])"
proof -
  define t1 where "t1 = (if lengths (Table_init f h w py px) = []
                         then get_lengths (Table_init f h w py px)
                         else Table_init f h w py px)"
  define r where "r = resize t1 (of_nat (length (data t1)) + 4) (new_width (lengths t1))"
  have t1: "data t1 = from_data f" "main t1 = newwin h w py px"
    by (simp_all add: t1_def get_lengths_frame Table_init_frame)
  have eq: "Table_new f h w py px = (case write_table (fst r) (- 1) of
           Inl e \<Rightarrow> Inl e
         | Inr ds \<Rightarrow> Inr (fst r, snd r @ ds @ [Refresh]))"
    unfolding Table_new_def Let_def r_def t1_def
    using assms(1) by (simp only: if_True)
  with assms(2) obtain ds where ds: "write_table (fst r) (- 1) = Inr ds"
    and t: "t = fst r" and cs: "cs = snd r @ ds @ [Refresh]"
    by (auto split: sum.splits)
  have "lengths t = lengths t1"
    using t by (simp add: r_def resize_frame)
  then show ?thesis
    using t cs ds t1 by (simp add: r_def resize_frame new_width_sum)
qed

text \<open>\<open>set_data\<close> resizes to (rows + 4, 1): the width is the constant 1.\<close>

lemma set_data_auto_resize:
  assumes "set_data t d True = Inr (t', cs)"
  shows "main t' = wresize (main t) (of_nat (length d) + 4) 1
     \<and> (\<exists>ds. write_table t' (- 1) = Inr ds
           \<and> cs = [Erase, Resize (of_nat (length d) + 4) 1] @ ds @ [Refresh])"
proof -
  define t2 where "t2 = get_lengths (t\<lparr>data := d, lengths := []\<rparr>)"
  define r where "r = resize t2 (of_nat (length (data t2)) + 4) 1"
  have d2: "data t2 = d" "main t2 = main t"
    by (simp_all add: t2_def get_lengths_frame)
  have "set_data t d True = (case write_table (fst r) (- 1) of
           Inl e \<Rightarrow> Inl e
         | Inr ds \<Rightarrow> Inr (fst r, [Erase] @ snd r @ ds @ [Refresh]))"
    unfolding set_data_def Let_def r_def t2_def by (simp only: if_True)
  with assms obtain ds where ds: "write_table (fst r) (- 1) = Inr ds"
    and t: "t' = fst r" and cs: "cs = [Erase] @ snd r @ ds @ [Refresh]"
    by (auto split: sum.splits)
  then show ?thesis
    using d2 by (simp add: r_def resize_frame)
qed

text \<open>
  C4. The claim holds for the constructor (\<open>Table_new_auto_resize\<close>) and fails for
  \<open>set_data\<close>. On a table with the headers Name and Age, \<open>set_data\<close> with two rows and
  \<open>auto_resize\<close> derives the widths 4 and 3, for which the claimed width is
  1 + (4 + 3) + (3 + 3) = 14, and resizes the surface to 6 rows and 1 column before it
  draws.
\<close>

theorem set_data_auto_resize_width:
  "(case set_data
          \<lparr>info = \<lparr>height = 10, width = 20, y = 0, x = 0\<rparr>,
             main = \<lparr>nlines = 10, ncols = 20, begin_y = 0, begin_x = 0\<rparr>,
             headers = [''Name'', ''Age''], data = [], lengths = [4, 3],
             generator = (\<lambda>r i. if i = 0 then fst r else snd r)\<rparr>
          [(''Al'', ''30''), (''Bo'', ''5'')] True of
      Inl e \<Rightarrow> None
    | Inr (t, cs) \<Rightarrow> Some (main t, lengths t, new_width (lengths t), take 2 cs))
   = Some (\<lparr>nlines = 6, ncols = 1, begin_y = 0, begin_x = 0\<rparr>, [4, 3], 14, [Erase, Resize 6 1])"
  by (simp add: set_data_def get_lengths_def resize_def wresize_def write_table_def
      new_width_def cell_def max_size_def Let_def)

section \<open>Construction\<close>





section \<open>Properties of the field editor\<close>

lemma check_movement_escape:
  "check_movement_input 27 (fe, f) = (True, fe\<lparr>escape := True, quit := True\<rparr>, f)"
  by (simp add: check_movement_input_def KEY_UP_def KEY_DOWN_def)

lemma check_movement_enter:
  "check_movement_input 10 (fe, f)
     = (True, if f = length (fields' fe) then fe\<lparr>quit := True\<rparr> else fe, f)"
  by (simp add: check_movement_input_def KEY_UP_def KEY_DOWN_def)

text \<open>Only Escape sets the escape flag, and it sets the quit flag with it.\<close>

lemma check_movement_escape_flag:
  "check_movement_input c (fe, f) = (m, fe1, f1) \<Longrightarrow> \<not> quit fe1 \<Longrightarrow> escape fe1 = escape fe"
  by (auto simp: check_movement_input_def split: if_splits)

lemma yield_body_escape:
  "yield_body ys 27 (fe, f, st)
     = Inr (True, (fe\<lparr>escape := True, quit := True\<rparr>, f, st), [])"
  by (simp add: yield_body_def check_movement_escape)

lemma yield_body_enter_ok:
  "f = length (fields' fe) \<Longrightarrow>
     yield_body ys 10 (fe, f, st) = Inr (True, (fe\<lparr>quit := True\<rparr>, f, st), [])"
  by (simp add: yield_body_def check_movement_enter)

lemma print_ok_no_proc: "Proc g k \<notin> set (print_ok fe hl)"
  by (simp add: print_ok_def)

lemma yield_body_enter_field:
  assumes "f < length (fields' fe)"
  shows "yield_body ys 10 (fe, f, st) =
     (if quit fe then Inr (True, (fe, f, st), [])
      else if f \<ge> length ys then Inl IndexOutOfBounds
      else Inr (False, (fe, f, st),
             CursSet 1 # print_ok fe False
               @ [Cursor (of_nat f)
                    (of_nat (length (fields' fe ! f) + 2 + length (content (ys ! f) st)))]))"
  using assms by (simp add: yield_body_def check_movement_enter Let_def)

lemma yield_body_no_break_escape:
  assumes "yield_body ys c (fe, f, st) = Inr (False, (fe1, f1, st1), out)"
  shows "escape fe1 = escape fe"
proof -
  obtain m fe2 f2 where cm: "check_movement_input c (fe, f) = (m, fe2, f2)"
    by (cases "check_movement_input c (fe, f)")
  from assms cm have "\<not> quit fe2 \<and> fe1 = fe2"
    by (auto simp: yield_body_def Let_def split: if_splits prod.splits sum.splits)
  with check_movement_escape_flag [OF cm] show ?thesis
    by simp
qed

lemma still_running_escape:
  "still_running ys (fe, f, st) pre = Some ((fe1, f1, st1), out) \<Longrightarrow> escape fe1 = escape fe"
proof (induction pre arbitrary: fe f st out)
  case Nil
  then show ?case by simp
next
  case (Cons c pre)
  from Cons.prems obtain fe2 f2 st2 o1 o2 where
    b: "yield_body ys c (fe, f, st) = Inr (False, (fe2, f2, st2), o1)"
    and r: "still_running ys (fe2, f2, st2) pre = Some ((fe1, f1, st1), o2)"
    by (auto split: if_splits sum.splits option.splits)
  from Cons.IH [OF r] yield_body_no_break_escape [OF b] show ?case
    by simp
qed

text \<open>The loop taken up again where a run that is still going on has got to.\<close>

lemma yield_loop_append:
  "still_running ys s pre = Some (s', out) \<Longrightarrow>
     yield_loop ys s (pre @ ks) = after out (yield_loop ys s' ks)"
proof (induction pre arbitrary: s out)
  case Nil
  then show ?case
    by (auto simp: after_def split: option.splits sum.splits)
next
  case (Cons c pre)
  from Cons.prems obtain s2 o1 o2 where
    b: "yield_body ys c s = Inr (False, s2, o1)" and c0: "c \<noteq> 0"
    and r: "still_running ys s2 pre = Some (s', o2)" and o: "out = o1 @ o2"
    by (auto split: if_splits sum.splits option.splits)
  from Cons.IH [OF r] b c0 o show ?case
    by (auto simp: after_def split: option.splits sum.splits)
qed

lemma yield_loop_escape:
  "yield_loop ys (fe, f, st) (27 # ks)
     = Some (Inr ((fe\<lparr>escape := True, quit := True\<rparr>, f, st), []))"
  by (simp add: yield_body_escape)

lemma yield_loop_enter_ok:
  "f = length (fields' fe) \<Longrightarrow>
     yield_loop ys (fe, f, st) (10 # ks) = Some (Inr ((fe\<lparr>quit := True\<rparr>, f, st), []))"
  by (simp add: yield_body_enter_ok)

lemma yield_value:
  "FieldEditor_yield fe ys st ks = Some (Inr (b, fe', st', cs)) \<Longrightarrow> b = (\<not> escape fe')"
  by (auto simp: FieldEditor_yield_def split: sum.splits if_splits option.splits)

lemma yield_after_prefix:
  assumes "update_fields fe ys st [0..<length (fields' fe)] = Inr cs0"
    and "fields' fe \<noteq> []" and "ys \<noteq> []"
    and "still_running ys (fe, 0, st) pre = Some ((fe1, f1, st1), out)"
    and "yield_loop ys (fe1, f1, st1) ks = Some (Inr ((fe2, f2, st2), out2))"
  shows "\<exists>cs. FieldEditor_yield fe ys st (pre @ ks) = Some (Inr (\<not> escape fe2, fe2, st2, cs))"
  using assms yield_loop_append [OF assms(4), of ks]
  by (simp add: FieldEditor_yield_def after_def)

text \<open>
  C8. Whenever the field editor's \<open>yield\<close> returns, it returns the negation of the escape
  flag. In every state of the loop Escape sets the escape flag (and the quit flag) and
  leaves the loop; Enter on the OK position (focus = number of fields) sets the quit flag
  and leaves the loop. So in a \<open>yield\<close> whose first paint succeeded, after any keys that
  left the loop running: Escape makes \<open>yield\<close> return false; and Enter on the OK position
  makes it return true, for an editor whose escape flag was not set before the call.
\<close>

theorem field_editor_yield_value:
  "(FieldEditor_yield fe ys st ks = Some (Inr (b, fe', st', cs)) \<longrightarrow> b = (\<not> escape fe'))
   \<and> yield_body ys 27 (fe1, f1, st1)
       = Inr (True, (fe1\<lparr>escape := True, quit := True\<rparr>, f1, st1), [])
   \<and> (f1 = length (fields' fe1) \<longrightarrow>
        yield_body ys 10 (fe1, f1, st1) = Inr (True, (fe1\<lparr>quit := True\<rparr>, f1, st1), []))
   \<and> (update_fields fe ys st [0..<length (fields' fe)] = Inr cs0
        \<and> fields' fe \<noteq> [] \<and> ys \<noteq> []
        \<and> still_running ys (fe, 0, st) pre = Some ((fe1, f1, st1), out) \<longrightarrow>
        (\<exists>cs. FieldEditor_yield fe ys st (pre @ 27 # ks)
                 = Some (Inr (False, fe1\<lparr>escape := True, quit := True\<rparr>, st1, cs)))
        \<and> (f1 = length (fields' fe1) \<and> \<not> escape fe \<longrightarrow>
             (\<exists>cs. FieldEditor_yield fe ys st (pre @ 10 # ks)
                      = Some (Inr (True, fe1\<lparr>quit := True\<rparr>, st1, cs)))))"
proof -
  have 1: "FieldEditor_yield fe ys st ks = Some (Inr (b, fe', st', cs)) \<longrightarrow> b = (\<not> escape fe')"
    using yield_value by blast
  have 2: "yield_body ys 27 (fe1, f1, st1)
             = Inr (True, (fe1\<lparr>escape := True, quit := True\<rparr>, f1, st1), [])"
    by (rule yield_body_escape)
  have 3: "f1 = length (fields' fe1) \<longrightarrow>
        yield_body ys 10 (fe1, f1, st1) = Inr (True, (fe1\<lparr>quit := True\<rparr>, f1, st1), [])"
    using yield_body_enter_ok by blast
  have 4: "(\<exists>cs. FieldEditor_yield fe ys st (pre @ 27 # ks)
                 = Some (Inr (False, fe1\<lparr>escape := True, quit := True\<rparr>, st1, cs)))
        \<and> (f1 = length (fields' fe1) \<and> \<not> escape fe \<longrightarrow>
             (\<exists>cs. FieldEditor_yield fe ys st (pre @ 10 # ks)
                      = Some (Inr (True, fe1\<lparr>quit := True\<rparr>, st1, cs))))"
    if pre: "update_fields fe ys st [0..<length (fields' fe)] = Inr cs0"
      "fields' fe \<noteq> []" "ys \<noteq> []"
      and run: "still_running ys (fe, 0, st) pre = Some ((fe1, f1, st1), out)"
  proof -
    from yield_after_prefix [OF pre run yield_loop_escape [of ys fe1 f1 st1 ks]]
    have a: "\<exists>cs. FieldEditor_yield fe ys st (pre @ 27 # ks)
                 = Some (Inr (False, fe1\<lparr>escape := True, quit := True\<rparr>, st1, cs))"
      by simp
    have b: "\<exists>cs. FieldEditor_yield fe ys st (pre @ 10 # ks)
                      = Some (Inr (True, fe1\<lparr>quit := True\<rparr>, st1, cs))"
      if ok: "f1 = length (fields' fe1)" and ne: "\<not> escape fe"
    proof -
      have "\<not> escape fe1"
        using still_running_escape [OF run] ne by simp
      with yield_after_prefix [OF pre run yield_loop_enter_ok [OF ok, of ys st1 ks]]
      show ?thesis by simp
    qed
    from a b show ?thesis by blast
  qed
  from 1 2 3 4 show ?thesis by blast
qed

lemma FieldEditor_new_example:
  "FieldEditor_new ''Edit'' [''Name'', ''Email''] \<lparr>height = 10, width = 30, y = 0, x = 0\<rparr>
     = \<lparr>info = \<lparr>height = 10, width = 30, y = 0, x = 0\<rparr>,
        main = \<lparr>nlines = 5, ncols = 28, begin_y = 4, begin_x = 1\<rparr>,
        box = \<lparr>nlines = 10, ncols = 30, begin_y = 0, begin_x = 0\<rparr>,
        title = \<lparr>nlines = 3, ncols = 28, begin_y = 1, begin_x = 1\<rparr>,
        title_str = ''Edit'', fields' = [''Name   '', ''Email  ''],
        quit = False, escape = False\<rparr>"
  by (simp add: FieldEditor_new_def DecoratedWindow_of_info_def DecoratedWindow_new_def
      BoxedWindow_new_def PlainWindow_new_def newwin_def string_resize_def Let_def)

theorem field_editor_yield_value_witness:
  "(\<exists>cs. FieldEditor_yield
            (FieldEditor_new ''Edit'' [''Name'', ''Email'']
               \<lparr>height = 10, width = 30, y = 0, x = 0\<rparr>)
            [Tyielder_string 0, Tyielder_string 1] (\<lambda>p. []) [KEY_DOWN, KEY_DOWN, 10]
          = Some (Inr (True,
              (FieldEditor_new ''Edit'' [''Name'', ''Email'']
                 \<lparr>height = 10, width = 30, y = 0, x = 0\<rparr>)\<lparr>quit := True\<rparr>,
              (\<lambda>p. []), cs)))
   \<and> (\<exists>cs. FieldEditor_yield
            (FieldEditor_new ''Edit'' [''Name'', ''Email'']
               \<lparr>height = 10, width = 30, y = 0, x = 0\<rparr>)
            [Tyielder_string 0, Tyielder_string 1] (\<lambda>p. []) [KEY_DOWN, KEY_DOWN, 27]
          = Some (Inr (False,
              (FieldEditor_new ''Edit'' [''Name'', ''Email'']
                 \<lparr>height = 10, width = 30, y = 0, x = 0\<rparr>)\<lparr>escape := True, quit := True\<rparr>,
              (\<lambda>p. []), cs)))"
proof -
  define fe where
    "fe = FieldEditor_new ''Edit'' [''Name'', ''Email''] \<lparr>height = 10, width = 30, y = 0, x = 0\<rparr>"
  define ys where "ys = [Tyielder_string 0, Tyielder_string 1]"
  define st :: store where "st = (\<lambda>p. [])"
  have fl: "fields' fe = [''Name   '', ''Email  '']" "\<not> quit fe" "\<not> escape fe"
    "width (info fe) = 30"
    by (simp_all add: fe_def FieldEditor_new_example)
  have "\<exists>cs0. update_fields fe ys st [0..<length (fields' fe)] = Inr cs0"
    by (simp add: fl ys_def st_def update_field_def content_def to_size_t_def upt_rec Let_def)
  then obtain cs0 where p1: "update_fields fe ys st [0..<length (fields' fe)] = Inr cs0" ..
  have p2: "fields' fe \<noteq> []" "ys \<noteq> []"
    by (simp_all add: fl ys_def)
  have s1: "yield_body ys KEY_DOWN (fe, 0, st)
              = Inr (False, (fe, 1, st), CursSet 1 # print_ok fe False @ [Cursor 1 9])"
    by (simp add: yield_body_def check_movement_input_def fl ys_def st_def content_def
        KEY_DOWN_def KEY_UP_def Let_def)
  have s2: "yield_body ys KEY_DOWN (fe, 1, st)
              = Inr (False, (fe, 2, st), CursSet 0 # print_ok fe True)"
    by (simp add: yield_body_def check_movement_input_def fl ys_def st_def content_def
        KEY_DOWN_def KEY_UP_def Let_def)
  have k: "KEY_DOWN \<noteq> 0"
    by (simp add: KEY_DOWN_def)
  have run: "still_running ys (fe, 0, st) [KEY_DOWN, KEY_DOWN]
     = Some ((fe, 2, st),
         (CursSet 1 # print_ok fe False @ [Cursor 1 9]) @ CursSet 0 # print_ok fe True @ [])"
    using s1 s2 k by simp
  have ok: "2 = length (fields' fe) \<and> \<not> escape fe"
    by (simp add: fl)
  from field_editor_yield_value [where fe = fe and ys = ys and st = st and ks = "[]"
      and ?fe1.0 = fe and ?f1.0 = 2 and ?st1.0 = st and ?cs0.0 = cs0
      and pre = "[KEY_DOWN, KEY_DOWN]"]
    p1 p2 run ok
  show ?thesis
    unfolding fe_def ys_def st_def by simp
qed

text \<open>
  C10. With the focus on a field (below the number of fields), Enter changes nothing:
  \<open>_check_movement_input\<close> returns the editor and the focus as they were, and whatever
  the loop body then returns, the editor with its flags and fields, the focus and the
  store of field contents are unchanged and no \<open>proc\<close> of an edit strategy was called.
  With a yielder for the focused field the body does return so.
\<close>

theorem enter_on_field_is_noop:
  "f < length (fields' fe) \<Longrightarrow>
     check_movement_input 10 (fe, f) = (True, fe, f)
     \<and> (\<forall>brk s' out. yield_body ys 10 (fe, f, st) = Inr (brk, s', out) \<longrightarrow>
           s' = (fe, f, st) \<and> (\<forall>g k. Proc g k \<notin> set out))
     \<and> (f < length ys \<longrightarrow>
          (\<exists>brk out. yield_body ys 10 (fe, f, st) = Inr (brk, (fe, f, st), out)))"
proof -
  assume f: "f < length (fields' fe)"
  have 1: "check_movement_input 10 (fe, f) = (True, fe, f)"
    using f by (simp add: check_movement_enter)
  note b = yield_body_enter_field [OF f, of ys st]
  have 2: "s' = (fe, f, st) \<and> (\<forall>g k. Proc g k \<notin> set out)"
    if "yield_body ys 10 (fe, f, st) = Inr (brk, s', out)" for brk s' out
    using that b by (auto simp: print_ok_no_proc split: if_splits)
  have 3: "\<exists>brk out. yield_body ys 10 (fe, f, st) = Inr (brk, (fe, f, st), out)"
    if "f < length ys"
    using that b by (cases "quit fe") auto
  from 1 2 3 show ?thesis by blast
qed

theorem enter_on_field_is_noop_witness:
  "\<exists>brk out. yield_body [Tyielder_string 0, Tyielder_string 1] 10
      (FieldEditor_new ''Edit'' [''Name'', ''Email''] \<lparr>height = 10, width = 30, y = 0, x = 0\<rparr>,
       1, (\<lambda>p. if p = 1 then ''a@b'' else []))
     = Inr (brk,
         (FieldEditor_new ''Edit'' [''Name'', ''Email'']
            \<lparr>height = 10, width = 30, y = 0, x = 0\<rparr>,
          1, (\<lambda>p. if p = 1 then ''a@b'' else [])), out)"
proof -
  have f: "1 < length (fields' (FieldEditor_new ''Edit'' [''Name'', ''Email'']
             \<lparr>height = 10, width = 30, y = 0, x = 0\<rparr>))"
    by (simp add: FieldEditor_new_example)
  from enter_on_field_is_noop [OF f, of "[Tyielder_string 0, Tyielder_string 1]"
      "\<lambda>p. if p = 1 then ''a@b'' else []"]
  show ?thesis by simp
qed

end
